theory Spec2Isabelle
  imports Main "HOL-Library.Word" "HOL-Library.AList"
begin

unbundle bit_operations_syntax

section \<open>The AMQP 1.0 codec of serialization.go\<close>

text \<open>
  A shallow embedding of \<^verbatim>\<open>src/serialization.go\<close>. Go's \<^verbatim>\<open>int\<close> is taken to be
  64 bits wide (amd64); lengths and counts, which are never negative, are natural numbers
  and every narrowing conversion (\<^verbatim>\<open>uint8(l)\<close>, \<^verbatim>\<open>uint32(l)\<close>) is written as
  \<open>of_nat\<close> into the word type, which truncates as Go does.
\<close>

type_synonym u8 = "8 word"
type_synonym u16 = "16 word"
type_synonym u32 = "32 word"
type_synonym u64 = "64 word"
type_synonym bytes = "u8 list"

subsection \<open>Type codes\<close>

type_synonym amqpType = u8

abbreviation typeCodeNull :: amqpType where "typeCodeNull \<equiv> 0x40"
abbreviation typeCodeBool :: amqpType where "typeCodeBool \<equiv> 0x56"
abbreviation typeCodeBoolTrue :: amqpType where "typeCodeBoolTrue \<equiv> 0x41"
abbreviation typeCodeBoolFalse :: amqpType where "typeCodeBoolFalse \<equiv> 0x42"
abbreviation typeCodeUbyte :: amqpType where "typeCodeUbyte \<equiv> 0x50"
abbreviation typeCodeUshort :: amqpType where "typeCodeUshort \<equiv> 0x60"
abbreviation typeCodeUint :: amqpType where "typeCodeUint \<equiv> 0x70"
abbreviation typeCodeSmallUint :: amqpType where "typeCodeSmallUint \<equiv> 0x52"
abbreviation typeCodeUint0 :: amqpType where "typeCodeUint0 \<equiv> 0x43"
abbreviation typeCodeUlong :: amqpType where "typeCodeUlong \<equiv> 0x80"
abbreviation typeCodeSmallUlong :: amqpType where "typeCodeSmallUlong \<equiv> 0x53"
abbreviation typeCodeUlong0 :: amqpType where "typeCodeUlong0 \<equiv> 0x44"
abbreviation typeCodeByte :: amqpType where "typeCodeByte \<equiv> 0x51"
abbreviation typeCodeShort :: amqpType where "typeCodeShort \<equiv> 0x61"
abbreviation typeCodeInt :: amqpType where "typeCodeInt \<equiv> 0x71"
abbreviation typeCodeSmallint :: amqpType where "typeCodeSmallint \<equiv> 0x54"
abbreviation typeCodeLong :: amqpType where "typeCodeLong \<equiv> 0x81"
abbreviation typeCodeSmalllong :: amqpType where "typeCodeSmalllong \<equiv> 0x55"
abbreviation typeCodeFloat :: amqpType where "typeCodeFloat \<equiv> 0x72"
abbreviation typeCodeDouble :: amqpType where "typeCodeDouble \<equiv> 0x82"
abbreviation typeCodeDecimal32 :: amqpType where "typeCodeDecimal32 \<equiv> 0x74"
abbreviation typeCodeDecimal64 :: amqpType where "typeCodeDecimal64 \<equiv> 0x84"
abbreviation typeCodeDecimal128 :: amqpType where "typeCodeDecimal128 \<equiv> 0x94"
abbreviation typeCodeChar :: amqpType where "typeCodeChar \<equiv> 0x73"
abbreviation typeCodeTimestamp :: amqpType where "typeCodeTimestamp \<equiv> 0x83"
abbreviation typeCodeUUID :: amqpType where "typeCodeUUID \<equiv> 0x98"
abbreviation typeCodeVbin8 :: amqpType where "typeCodeVbin8 \<equiv> 0xa0"
abbreviation typeCodeVbin32 :: amqpType where "typeCodeVbin32 \<equiv> 0xb0"
abbreviation typeCodeStr8 :: amqpType where "typeCodeStr8 \<equiv> 0xa1"
abbreviation typeCodeStr32 :: amqpType where "typeCodeStr32 \<equiv> 0xb1"
abbreviation typeCodeSym8 :: amqpType where "typeCodeSym8 \<equiv> 0xa3"
abbreviation typeCodeSym32 :: amqpType where "typeCodeSym32 \<equiv> 0xb3"
abbreviation typeCodeList0 :: amqpType where "typeCodeList0 \<equiv> 0x45"
abbreviation typeCodeList8 :: amqpType where "typeCodeList8 \<equiv> 0xc0"
abbreviation typeCodeList32 :: amqpType where "typeCodeList32 \<equiv> 0xd0"
abbreviation typeCodeMap8 :: amqpType where "typeCodeMap8 \<equiv> 0xc1"
abbreviation typeCodeMap32 :: amqpType where "typeCodeMap32 \<equiv> 0xd1"
abbreviation typeCodeArray8 :: amqpType where "typeCodeArray8 \<equiv> 0xe0"
abbreviation typeCodeArray32 :: amqpType where "typeCodeArray32 \<equiv> 0xf0"

text \<open>\<^verbatim>\<open>math.MaxUint8\<close> and \<^verbatim>\<open>math.MaxUint32\<close>.\<close>

abbreviation MaxUint8 :: nat where "MaxUint8 \<equiv> 255"
abbreviation MaxUint32 :: nat where "MaxUint32 \<equiv> 4294967295"

subsection \<open>Errors\<close>

text \<open>
  The package's error values. \<^verbatim>\<open>errNull\<close>, \<^verbatim>\<open>errInvalidLength\<close> and
  \<^verbatim>\<open>errLimitReached\<close> are package variables compared by identity, so each is a
  constructor of its own; \<^verbatim>\<open>errorNew\<close> and \<^verbatim>\<open>errorErrorf\<close> carry their message
  (the format string, without the formatted arguments); \<open>EOF\<close>, \<open>ErrUnexpectedEOF\<close>
  and \<open>errUnreadByte\<close> are the errors of Go's \<^verbatim>\<open>io\<close> and \<^verbatim>\<open>bytes\<close> packages.
\<close>

datatype error =
    errNull
  | errInvalidLength
  | errLimitReached
  | EOF
  | ErrUnexpectedEOF
  | errUnreadByte
  | errorNew string
  | errorErrorf string
  | errorWrapf error string

subsection \<open>Big-endian integers (\<^verbatim>\<open>encoding/binary\<close>)\<close>

definition be16 :: "u16 \<Rightarrow> bytes" where
  "be16 w = [ucast (drop_bit 8 w), ucast w]"

definition be32 :: "u32 \<Rightarrow> bytes" where
  "be32 w = [ucast (drop_bit 24 w), ucast (drop_bit 16 w), ucast (drop_bit 8 w), ucast w]"

definition be64 :: "u64 \<Rightarrow> bytes" where
  "be64 w = [ucast (drop_bit 56 w), ucast (drop_bit 48 w), ucast (drop_bit 40 w),
             ucast (drop_bit 32 w), ucast (drop_bit 24 w), ucast (drop_bit 16 w),
             ucast (drop_bit 8 w), ucast w]"

text \<open>The unsigned number a big-endian byte string denotes.\<close>

definition be_nat :: "bytes \<Rightarrow> nat" where
  "be_nat bs = foldl (\<lambda>a b. a * 256 + unat b) 0 bs"

subsection \<open>\<^verbatim>\<open>utf8.ValidString\<close>\<close>

text \<open>
  Go's \<^verbatim>\<open>unicode/utf8\<close> validity check, after its table of first bytes: the size of the
  sequence a first byte starts (0 for an illegal first byte) and the range its second
  byte must lie in.
\<close>

definition utf8_size :: "u8 \<Rightarrow> nat" where
  "utf8_size b =
     (if 0xC2 \<le> b \<and> b \<le> 0xDF then 2
      else if 0xE0 \<le> b \<and> b \<le> 0xEF then 3
      else if 0xF0 \<le> b \<and> b \<le> 0xF4 then 4
      else 0)"

definition utf8_accept :: "u8 \<Rightarrow> u8 \<times> u8" where
  "utf8_accept b =
     (if b = 0xE0 then (0xA0, 0xBF)
      else if b = 0xED then (0x80, 0x9F)
      else if b = 0xF0 then (0x90, 0xBF)
      else if b = 0xF4 then (0x80, 0x8F)
      else (0x80, 0xBF))"

definition utf8_cont :: "u8 \<Rightarrow> bool" where
  "utf8_cont c = (0x80 \<le> c \<and> c \<le> 0xBF)"

function ValidString :: "bytes \<Rightarrow> bool" where
  "ValidString [] = True"
| "ValidString (si # s) =
     (if si < 0x80 then ValidString s
      else if utf8_size si = 0 then False
      else if length s < utf8_size si - 1 then False
      else if s ! 0 < fst (utf8_accept si) \<or> snd (utf8_accept si) < s ! 0 then False
      else if utf8_size si = 2 then ValidString (drop 1 s)
      else if \<not> utf8_cont (s ! 1) then False
      else if utf8_size si = 3 then ValidString (drop 2 s)
      else if \<not> utf8_cont (s ! 2) then False
      else ValidString (drop 3 s))"
  by pat_completeness auto
termination
  by (relation "measure length") auto

subsection \<open>Writing\<close>

text \<open>
  The \<^verbatim>\<open>writer\<close> interface is served by \<^verbatim>\<open>*bytes.Buffer\<close>, whose \<^verbatim>\<open>Write\<close> and
  \<^verbatim>\<open>WriteByte\<close> append and always return a nil error. A writer is the bytes written
  so far, and a writing function returns its error together with the writer it leaves.
\<close>

type_synonym writer = bytes

definition writeString :: "writer \<Rightarrow> bytes \<Rightarrow> error option \<times> writer" where
  "writeString wr str =
     (if \<not> ValidString str then (Some (errorNew ''not a valid UTF-8 string''), wr)
      else let l = length str in
        if l < 256 then (None, wr @ ([typeCodeStr8, of_nat l] @ str))
        else if l < MaxUint32 then (None, ((wr @ [typeCodeStr32]) @ be32 (of_nat l)) @ str)
        else (Some (errorNew ''too long''), wr))"

definition writeBinary :: "writer \<Rightarrow> bytes \<Rightarrow> error option \<times> writer" where
  "writeBinary wr bin =
     (let l = length bin in
        if l < 256 then (None, wr @ ([typeCodeVbin8, of_nat l] @ bin))
        else if l < MaxUint32 then (None, ((wr @ [typeCodeVbin32]) @ be32 (of_nat l)) @ bin)
        else (Some (errorNew ''too long''), wr))"

text \<open>
  \<^verbatim>\<open>writeSlice\<close>: \<open>size\<close> is the sum of the lengths of the encoded fields.
\<close>

definition writeSlice :: "writer \<Rightarrow> bool \<Rightarrow> amqpType \<Rightarrow> bytes list \<Rightarrow> error option \<times> writer" where
  "writeSlice wr isArray ofType fields =
     (let size = sum_list (map length fields);
          size8 = (if isArray then typeCodeArray8 else typeCodeList8);
          size32 = (if isArray then typeCodeArray32 else typeCodeList32);
          l = length fields
      in
        if l = 0 then
          (if isArray then (Some (errorNew ''invalid array length 0''), wr)
           else (None, wr @ [typeCodeList0]))
        else if l < 256 \<and> size < 256 then
          (None, ((wr @ [size8, of_nat (size + 1), of_nat l])
                  @ (if isArray then [ofType] else [])) @ concat fields)
        else if l < MaxUint32 \<and> size < MaxUint32 then
          (None, ((((wr @ [size32]) @ be32 (of_nat (size + 4))) @ be32 (of_nat l))
                  @ (if isArray then [ofType] else [])) @ concat fields)
        else (Some (errorNew ''too many fields''), wr))"

definition writeArray :: "writer \<Rightarrow> amqpType \<Rightarrow> bytes list \<Rightarrow> error option \<times> writer" where
  "writeArray wr ofType fields = writeSlice wr True ofType fields"

definition writeList :: "writer \<Rightarrow> bytes list \<Rightarrow> error option \<times> writer" where
  "writeList wr fields = writeSlice wr False 0 fields"

text \<open>
  \<^verbatim>\<open>writeSymbol\<close> writes one element of a symbol array: the length in the width the
  array's element type asks for, then the symbol, with no type code of its own.
\<close>

definition writeSymbol :: "writer \<Rightarrow> bytes \<Rightarrow> amqpType \<Rightarrow> error option \<times> writer" where
  "writeSymbol wr symb typ =
     (if \<not> ValidString symb then (Some (errorNew ''not a valid UTF-8 string''), wr)
      else let l = length symb in
        if typ = typeCodeSym8 then (None, (wr @ [of_nat l]) @ symb)
        else if typ = typeCodeSym32 then (None, (wr @ be32 (of_nat l)) @ symb)
        else (Some (errorNew ''invalid symbol type''), wr))"

text \<open>The second loop of \<^verbatim>\<open>writeSymbolArray\<close>: each symbol encoded into a scratch buffer.\<close>

fun symbolElems :: "amqpType \<Rightarrow> bytes list \<Rightarrow> error + bytes list" where
  "symbolElems ofType [] = Inr []"
| "symbolElems ofType (symbol # symbols) =
     (case writeSymbol [] symbol ofType of
        (Some e, _) \<Rightarrow> Inl e
      | (None, b) \<Rightarrow>
          (case symbolElems ofType symbols of
             Inl e \<Rightarrow> Inl e
           | Inr elems \<Rightarrow> Inr (b # elems)))"

definition writeSymbolArray :: "writer \<Rightarrow> bytes list \<Rightarrow> error option \<times> writer" where
  "writeSymbolArray w symbols =
     (let ofType = (if list_ex (\<lambda>symbol. MaxUint8 < length symbol) symbols
                    then typeCodeSym32 else typeCodeSym8)
      in case symbolElems ofType symbols of
           Inl e \<Rightarrow> (Some e, w)
         | Inr elems \<Rightarrow> writeArray w ofType elems)"

text \<open>\<^verbatim>\<open>Symbol.marshal\<close>; its 32-bit branch writes the length with no type code.\<close>

definition Symbol_marshal :: "writer \<Rightarrow> bytes \<Rightarrow> error option \<times> writer" where
  "Symbol_marshal wr s =
     (let l = length s in
        if l < 256 then (None, wr @ ([typeCodeSym8, of_nat l] @ s))
        else if l < MaxUint32 then (None, (wr @ be32 (of_nat l)) @ s)
        else (Some (errorNew ''too long''), wr))"

text \<open>
  The values \<^verbatim>\<open>marshal\<close> is given, by dynamic type. \<open>VSymbol\<close> and
  \<open>VMilliseconds\<close> are the two types of this file with a \<^verbatim>\<open>marshal\<close> method (a
  \<^verbatim>\<open>milliseconds\<close> is a \<^verbatim>\<open>time.Duration\<close>, a signed 64-bit count of nanoseconds);
  \<open>VPUint32 None\<close> is a nil \<^verbatim>\<open>*uint32\<close>; \<open>VOther\<close> stands for a value of any type
  the type switch has no case for.
\<close>

datatype goValue =
    VSymbol bytes
  | VMilliseconds u64
  | VBool bool
  | VUint64 u64
  | VUint32 u32
  | VPUint32 "u32 option"
  | VUint16 u16
  | VUint8 u8
  | VSymbols "bytes list"
  | VString bytes
  | VBytes bytes
  | VOther

text \<open>Go's integer division truncates towards zero.\<close>

definition quot :: "int \<Rightarrow> int \<Rightarrow> int" where
  "quot a b = sgn a * sgn b * (\<bar>a\<bar> div \<bar>b\<bar>)"

text \<open>The \<^verbatim>\<open>uint32\<close> case of \<^verbatim>\<open>marshal\<close>, which \<^verbatim>\<open>milliseconds.marshal\<close> calls too.\<close>

definition marshal_uint32 :: "writer \<Rightarrow> u32 \<Rightarrow> error option \<times> writer" where
  "marshal_uint32 wr t =
     (if t = 0 then (None, wr @ [typeCodeUint0])
      else (None, (wr @ [typeCodeUint]) @ be32 t))"

definition milliseconds_marshal :: "writer \<Rightarrow> u64 \<Rightarrow> error option \<times> writer" where
  "milliseconds_marshal wr m = marshal_uint32 wr (of_int (quot (sint m) 1000000))"

fun marshal :: "writer \<Rightarrow> goValue \<Rightarrow> error option \<times> writer" where
  "marshal wr (VSymbol s) = Symbol_marshal wr s"
| "marshal wr (VMilliseconds m) = milliseconds_marshal wr m"
| "marshal wr (VBool t) =
     (if t then (None, wr @ [typeCodeBoolTrue]) else (None, wr @ [typeCodeBoolFalse]))"
| "marshal wr (VUint64 t) =
     (if t = 0 then (None, wr @ [typeCodeUlong0])
      else (None, (wr @ [typeCodeUlong]) @ be64 t))"
| "marshal wr (VUint32 t) = marshal_uint32 wr t"
| "marshal wr (VPUint32 None) = (None, wr @ [typeCodeNull])"
| "marshal wr (VPUint32 (Some t)) =
     (if t = 0 then (None, wr @ [typeCodeUint0])
      else (None, (wr @ [typeCodeUint]) @ be32 t))"
| "marshal wr (VUint16 t) = (None, (wr @ [typeCodeUshort]) @ be16 t)"
| "marshal wr (VUint8 t) = (None, wr @ [typeCodeUbyte, t])"
| "marshal wr (VSymbols t) = writeSymbolArray wr t"
| "marshal wr (VString t) = writeString wr t"
| "marshal wr (VBytes t) = writeBinary wr t"
| "marshal wr VOther = (Some (errorErrorf ''marshal not implemented for %T''), wr)"

subsection \<open>Maps, written\<close>

definition writeMapHeader :: "writer \<Rightarrow> int \<Rightarrow> error option \<times> writer" where
  "writeMapHeader wr elements =
     (if elements < int MaxUint8 then (None, (wr @ [typeCodeMap8]) @ [of_int elements])
      else (None, (wr @ [typeCodeMap32]) @ be32 (of_int elements)))"

definition writeMapElement :: "writer \<Rightarrow> goValue \<Rightarrow> goValue \<Rightarrow> error option \<times> writer" where
  "writeMapElement wr key val =
     (case marshal wr key of
        (Some e, wr') \<Rightarrow> (Some e, wr')
      | (None, wr') \<Rightarrow> marshal wr' val)"

subsection \<open>Composites, written\<close>

record marshalField =
  mf_value :: goValue
  mf_omit :: bool

text \<open>
  The first loop of \<^verbatim>\<open>marshalComposite\<close>, from index \<open>i\<close> on: \<open>rawFields\<close> holds the
  encoding of every field marshalled so far (a nil entry is the empty list: an entry is
  non-nil only when bytes were copied into it) and \<open>lastSetIdx\<close> the last index that
  was not omitted.
\<close>

fun marshalFields ::
  "marshalField list \<Rightarrow> nat \<Rightarrow> bytes list \<Rightarrow> int \<Rightarrow> error + (bytes list \<times> int)" where
  "marshalFields [] i rawFields lastSetIdx = Inr (rawFields, lastSetIdx)"
| "marshalFields (f # flds) i rawFields lastSetIdx =
     (if mf_omit f then marshalFields flds (i + 1) rawFields lastSetIdx
      else case marshal [] (mf_value f) of
             (Some e, _) \<Rightarrow> Inl e
           | (None, b) \<Rightarrow> marshalFields flds (i + 1) (rawFields[i := b]) (int i))"

text \<open>The second loop: a Null at every index up to \<open>lastSetIdx\<close> that is still nil.\<close>

definition fillNulls :: "bytes list \<Rightarrow> int \<Rightarrow> bytes list" where
  "fillNulls rawFields lastSetIdx =
     fold (\<lambda>i raw. if raw ! i = [] then raw[i := [typeCodeNull]] else raw)
          [0 ..< nat (lastSetIdx + 1)] rawFields"

definition marshalComposite ::
  "writer \<Rightarrow> amqpType \<Rightarrow> marshalField list \<Rightarrow> error option \<times> writer" where
  "marshalComposite wr code flds =
     (case marshalFields flds 0 (replicate (length flds) []) (- 1) of
        Inl e \<Rightarrow> (Some e, wr)
      | Inr (rawFields, lastSetIdx) \<Rightarrow>
          writeList (wr @ [0x0, typeCodeSmallUlong, code])
                    (take (nat (lastSetIdx + 1)) (fillNulls rawFields lastSetIdx)))"

subsection \<open>Reading: \<^verbatim>\<open>bytes.Buffer\<close> and the \<^verbatim>\<open>reader\<close> interface\<close>

text \<open>
  The \<^verbatim>\<open>reader\<close> interface "is fulfilled by \<^verbatim>\<open>*bytes.Buffer\<close>": the buffer's
  contents, its read offset, and whether the last operation was a successful read (which
  is what \<^verbatim>\<open>UnreadByte\<close> asks for). Each method is the one of Go's \<^verbatim>\<open>bytes\<close> package.
\<close>

record buffer =
  b_buf :: bytes
  b_off :: nat
  b_lastRead :: bool

definition Buffer_empty :: "buffer \<Rightarrow> bool" where
  "Buffer_empty b = (length (b_buf b) \<le> b_off b)"

definition Buffer_Len :: "buffer \<Rightarrow> nat" where
  "Buffer_Len b = length (b_buf b) - b_off b"

definition Buffer_Bytes :: "buffer \<Rightarrow> bytes" where
  "Buffer_Bytes b = drop (b_off b) (b_buf b)"

definition Buffer_Reset :: "buffer \<Rightarrow> buffer" where
  "Buffer_Reset b = b\<lparr>b_buf := [], b_off := 0, b_lastRead := False\<rparr>"

definition Buffer_ReadByte :: "buffer \<Rightarrow> (error + u8) \<times> buffer" where
  "Buffer_ReadByte b =
     (if Buffer_empty b then (Inl EOF, Buffer_Reset b)
      else (Inr (b_buf b ! b_off b), b\<lparr>b_off := b_off b + 1, b_lastRead := True\<rparr>))"

definition Buffer_UnreadByte :: "buffer \<Rightarrow> error option \<times> buffer" where
  "Buffer_UnreadByte b =
     (if \<not> b_lastRead b then (Some errUnreadByte, b)
      else (None, b\<lparr>b_lastRead := False,
                       b_off := (if 0 < b_off b then b_off b - 1 else b_off b)\<rparr>))"

text \<open>\<^verbatim>\<open>Read(p)\<close> with \<open>n\<close> the length of \<open>p\<close>: the bytes copied into \<open>p\<close> and the error.\<close>

definition Buffer_Read :: "buffer \<Rightarrow> nat \<Rightarrow> (bytes \<times> error option) \<times> buffer" where
  "Buffer_Read b n =
     (if Buffer_empty b then
        (if n = 0 then (([], None), Buffer_Reset b) else (([], Some EOF), Buffer_Reset b))
      else let bs = take n (drop (b_off b) (b_buf b)) in
        ((bs, None), b\<lparr>b_off := b_off b + length bs, b_lastRead := (0 < length bs)\<rparr>))"

text \<open>
  A reader is a buffer, or a \<^verbatim>\<open>limitReader\<close>: a struct that embeds a reader and adds
  \<open>limit\<close> and \<open>read\<close>. The struct declares \<^verbatim>\<open>Read\<close> only; every other method of the
  interface is promoted from the embedded reader.
\<close>

datatype reader =
    BytesBuffer buffer
  | limitReader (lr_reader: reader) (lr_limit: u32) (lr_read: u32)

fun ReadByte :: "reader \<Rightarrow> (error + u8) \<times> reader" where
  "ReadByte (BytesBuffer b) = (case Buffer_ReadByte b of (x, b') \<Rightarrow> (x, BytesBuffer b'))"
| "ReadByte (limitReader r lim rd) =
     (case ReadByte r of (x, r') \<Rightarrow> (x, limitReader r' lim rd))"

fun UnreadByte :: "reader \<Rightarrow> error option \<times> reader" where
  "UnreadByte (BytesBuffer b) = (case Buffer_UnreadByte b of (x, b') \<Rightarrow> (x, BytesBuffer b'))"
| "UnreadByte (limitReader r lim rd) =
     (case UnreadByte r of (x, r') \<Rightarrow> (x, limitReader r' lim rd))"

fun Len :: "reader \<Rightarrow> nat" where
  "Len (BytesBuffer b) = Buffer_Len b"
| "Len (limitReader r lim rd) = Len r"

fun Bytes :: "reader \<Rightarrow> bytes" where
  "Bytes (BytesBuffer b) = Buffer_Bytes b"
| "Bytes (limitReader r lim rd) = Bytes r"

text \<open>\<^verbatim>\<open>limitReader.Read\<close> is the one method the struct overrides.\<close>

fun Read :: "reader \<Rightarrow> nat \<Rightarrow> (bytes \<times> error option) \<times> reader" where
  "Read (BytesBuffer b) n = (case Buffer_Read b n of (x, b') \<Rightarrow> (x, BytesBuffer b'))"
| "Read (limitReader r lim rd) n =
     (if lim \<le> rd then (([], Some errLimitReached), limitReader r lim rd)
      else case Read r n of
             ((bs, err), r') \<Rightarrow> ((bs, err), limitReader r' lim (rd + of_nat (length bs))))"

lemma Read_progress:
  "Read r n = ((bs, None), r') \<Longrightarrow> 0 < n \<Longrightarrow> bs \<noteq> []"
proof (induction r arbitrary: r')
  case (BytesBuffer b)
  then show ?case
    by (auto simp: Buffer_Read_def Buffer_empty_def Let_def split: if_splits)
next
  case (limitReader r lim rd)
  then show ?case
    by (auto split: if_splits prod.splits)
qed

text \<open>
  \<^verbatim>\<open>io.ReadFull(r, buf)\<close>, with \<open>need\<close> the length of \<open>buf\<close> and \<open>acc\<close> the bytes
  read so far: \<^verbatim>\<open>Read\<close> is called on what is left of \<open>buf\<close> until it is full or
  an error comes; a short read that ends in \<open>EOF\<close> is \<open>ErrUnexpectedEOF\<close>.
\<close>

function ReadAtLeast :: "reader \<Rightarrow> nat \<Rightarrow> bytes \<Rightarrow> (error + bytes) \<times> reader" where
  "ReadAtLeast r need acc =
     (if length acc < need then
        (case Read r (need - length acc) of
           ((bs, None), r') \<Rightarrow> ReadAtLeast r' need (acc @ bs)
         | ((bs, Some e), r') \<Rightarrow>
             (if need \<le> length (acc @ bs) then (Inr (acc @ bs), r')
              else if 0 < length (acc @ bs) \<and> e = EOF then (Inl ErrUnexpectedEOF, r')
              else (Inl e, r')))
      else (Inr acc, r))"
  by pat_completeness auto
termination
proof (relation "measure (\<lambda>(r, need, acc). need - length acc)", goal_cases)
  case 1
  show ?case by simp
next
  case (2 r need acc x1 r' bs e)
  then have "Read r (need - length acc) = ((bs, None), r')" by simp
  with 2 have "bs \<noteq> []" using Read_progress by fastforce
  with 2 show ?case by (cases bs) auto
qed

definition ReadFull :: "reader \<Rightarrow> nat \<Rightarrow> (error + bytes) \<times> reader" where
  "ReadFull r n = ReadAtLeast r n []"

text \<open>
  \<^verbatim>\<open>binary.Read(r, binary.BigEndian, &n)\<close> for an integer of \<open>k\<close> bytes: the bytes are
  read with \<^verbatim>\<open>io.ReadFull\<close>; the caller decodes them with \<open>be_nat\<close>.
\<close>

definition binary_Read :: "reader \<Rightarrow> nat \<Rightarrow> (error + nat) \<times> reader" where
  "binary_Read r k =
     (case ReadFull r k of
        (Inl e, r') \<Rightarrow> (Inl e, r')
      | (Inr bs, r') \<Rightarrow> (Inr (be_nat bs), r'))"

subsection \<open>The readers\<close>

text \<open>
  A reading function returns its error or its value, together with the reader it leaves.
  Where the source returns a value with a non-nil error, no caller looks at the value.
\<close>

definition readVariableType :: "reader \<Rightarrow> amqpType \<Rightarrow> (error + bytes) \<times> reader" where
  "readVariableType r ofType =
     (if ofType = typeCodeNull then (Inr [], r)
      else if ofType = typeCodeVbin8 \<or> ofType = typeCodeStr8 \<or> ofType = typeCodeSym8 then
        (case ReadByte r of
           (Inl e, r') \<Rightarrow> (Inl e, r')
         | (Inr n, r') \<Rightarrow>
             (if Len r' < unat n then (Inl errInvalidLength, r')
              else ReadFull r' (unat n)))
      else if ofType = typeCodeVbin32 \<or> ofType = typeCodeStr32 \<or> ofType = typeCodeSym32 then
        (case binary_Read r 4 of
           (Inl e, r') \<Rightarrow> (Inl e, r')
         | (Inr n, r') \<Rightarrow>
             (if Len r' < n then (Inl errInvalidLength, r')
              else ReadFull r' n))
      else (Inl (errorErrorf ''type code %#00x is not a recognized variable length type''), r))"

definition readString :: "reader \<Rightarrow> (error + bytes) \<times> reader" where
  "readString r =
     (case ReadByte r of
        (Inl e, r') \<Rightarrow> (Inl e, r')
      | (Inr b, r') \<Rightarrow> readVariableType r' b)"

definition readBinary :: "reader \<Rightarrow> (error + bytes) \<times> reader" where
  "readBinary r =
     (case ReadByte r of
        (Inl e, r') \<Rightarrow> (Inl e, r')
      | (Inr b, r') \<Rightarrow> readVariableType r' b)"

text \<open>\<^verbatim>\<open>readHeaderSlice\<close> returns \<open>(elements, length)\<close>.\<close>

definition readHeaderSlice :: "reader \<Rightarrow> (error + nat \<times> nat) \<times> reader" where
  "readHeaderSlice r =
     (case ReadByte r of
        (Inl e, r') \<Rightarrow> (Inl e, r')
      | (Inr b, r1) \<Rightarrow>
          (if b = typeCodeNull then (Inl errNull, r1)
           else if b = typeCodeList0 then (Inr (0, 0), r1)
           else if b = typeCodeList8 \<or> b = typeCodeArray8 then
             (case ReadByte r1 of
                (Inl e, r2) \<Rightarrow> (Inl e, r2)
              | (Inr lByte, r2) \<Rightarrow>
                  (case ReadByte r2 of
                     (Inl e, r3) \<Rightarrow> (Inl e, r3)
                   | (Inr elemByte, r3) \<Rightarrow>
                       (if Len r3 < unat elemByte then (Inl errInvalidLength, r3)
                        else (Inr (unat elemByte, unat lByte), r3))))
           else if b = typeCodeList32 \<or> b = typeCodeArray32 then
             (case binary_Read r1 4 of
                (Inl e, r2) \<Rightarrow> (Inl e, r2)
              | (Inr l, r2) \<Rightarrow>
                  (case binary_Read r2 4 of
                     (Inl e, r3) \<Rightarrow> (Inl e, r3)
                   | (Inr elems, r3) \<Rightarrow>
                       (if Len r3 < elems then (Inl errInvalidLength, r3)
                        else (Inr (elems, l), r3))))
           else (Inl (errorErrorf ''type code %x is not a recognized list type''), r1)))"

text \<open>The loop of \<^verbatim>\<open>readSymbolArray\<close>: \<open>lElems\<close> payloads of the element type \<open>b\<close>.\<close>

fun readElems :: "reader \<Rightarrow> amqpType \<Rightarrow> nat \<Rightarrow> (error + bytes list) \<times> reader" where
  "readElems r b 0 = (Inr [], r)"
| "readElems r b (Suc n) =
     (case readVariableType r b of
        (Inl e, r') \<Rightarrow> (Inl e, r')
      | (Inr vari, r') \<Rightarrow>
          (case readElems r' b n of
             (Inl e, r'') \<Rightarrow> (Inl e, r'')
           | (Inr strs, r'') \<Rightarrow> (Inr (vari # strs), r'')))"

definition readSymbolArray :: "reader \<Rightarrow> (error + bytes list) \<times> reader" where
  "readSymbolArray r =
     (case readHeaderSlice r of
        (Inl e, r') \<Rightarrow> (Inl e, r')
      | (Inr (lElems, _), r1) \<Rightarrow>
          (case ReadByte r1 of
             (Inl e, r2) \<Rightarrow> (Inl e, r2)
           | (Inr b, r2) \<Rightarrow> readElems r2 b lElems))"

text \<open>
  An instant, as \<^verbatim>\<open>time.Time\<close> holds it: whole seconds since the Unix epoch and the
  nanoseconds within the second. \<^verbatim>\<open>time.Unix(sec, nsec)\<close> brings \<open>nsec\<close> into
  \<open>[0, 999999999]\<close>.
\<close>

datatype Time = unixTime (t_sec: int) (t_nsec: int)

definition time_Unix :: "int \<Rightarrow> int \<Rightarrow> Time" where
  "time_Unix sec nsec =
     (if nsec < 0 \<or> 1000000000 \<le> nsec then
        (let n = quot nsec 1000000000;
             sec1 = sec + n;
             nsec1 = nsec - n * 1000000000
         in if nsec1 < 0 then unixTime (sec1 - 1) (nsec1 + 1000000000)
            else unixTime sec1 nsec1)
      else unixTime sec nsec)"

text \<open>The offset of an instant from the epoch in milliseconds (\<^verbatim>\<open>Time.UnixMilli\<close>).\<close>

definition unixMilli :: "Time \<Rightarrow> int" where
  "unixMilli t = t_sec t * 1000 + t_nsec t div 1000000"

text \<open>
  \<^verbatim>\<open>readTimestamp\<close>: \<open>n\<close> is a \<^verbatim>\<open>uint64\<close>, so \<^verbatim>\<open>n % 1000\<close> is the unsigned
  remainder, while \<^verbatim>\<open>int64(n)/1000\<close> is the signed, truncating quotient.
\<close>

definition readTimestamp :: "reader \<Rightarrow> (error + Time) \<times> reader" where
  "readTimestamp r =
     (case ReadByte r of
        (Inl e, r') \<Rightarrow> (Inl e, r')
      | (Inr b, r1) \<Rightarrow>
          (if b = typeCodeNull then (Inl errNull, r1)
           else if b \<noteq> typeCodeTimestamp then
             (Inl (errorErrorf ''invalid type for timestamp %0x''), r1)
           else
             (case binary_Read r1 8 of
                (Inl e, r2) \<Rightarrow> (Inl e, r2)
              | (Inr k, r2) \<Rightarrow>
                  (let n = (of_nat k :: u64);
                       rem = n mod 1000
                   in (Inr (time_Unix (quot (sint n) 1000) (sint rem * 1000000)), r2)))))"

text \<open>\<^verbatim>\<open>readInt\<close> returns a Go \<^verbatim>\<open>int\<close>: a \<^verbatim>\<open>uint64\<close> is reinterpreted as signed.\<close>

definition readInt :: "reader \<Rightarrow> (error + int) \<times> reader" where
  "readInt r =
     (case ReadByte r of
        (Inl e, r') \<Rightarrow> (Inl e, r')
      | (Inr b, r1) \<Rightarrow>
          (if b = typeCodeUint0 \<or> b = typeCodeUlong0 then (Inr 0, r1)
           else if b = typeCodeUbyte \<or> b = typeCodeSmallUint \<or> b = typeCodeSmallUlong then
             (case ReadByte r1 of
                (Inl e, r2) \<Rightarrow> (Inl e, r2)
              | (Inr n, r2) \<Rightarrow> (Inr (uint n), r2))
           else if b = typeCodeUshort then
             (case binary_Read r1 2 of
                (Inl e, r2) \<Rightarrow> (Inl e, r2)
              | (Inr n, r2) \<Rightarrow> (Inr (uint (of_nat n :: u16)), r2))
           else if b = typeCodeUint then
             (case binary_Read r1 4 of
                (Inl e, r2) \<Rightarrow> (Inl e, r2)
              | (Inr n, r2) \<Rightarrow> (Inr (uint (of_nat n :: u32)), r2))
           else if b = typeCodeUlong then
             (case binary_Read r1 8 of
                (Inl e, r2) \<Rightarrow> (Inl e, r2)
              | (Inr n, r2) \<Rightarrow> (Inr (sint (of_nat n :: u64)), r2))
           else if b = typeCodeByte \<or> b = typeCodeSmallint \<or> b = typeCodeSmalllong then
             (case binary_Read r1 1 of
                (Inl e, r2) \<Rightarrow> (Inl e, r2)
              | (Inr n, r2) \<Rightarrow> (Inr (sint (of_nat n :: u8)), r2))
           else if b = typeCodeShort then
             (case binary_Read r1 2 of
                (Inl e, r2) \<Rightarrow> (Inl e, r2)
              | (Inr n, r2) \<Rightarrow> (Inr (sint (of_nat n :: u16)), r2))
           else if b = typeCodeInt then
             (case binary_Read r1 4 of
                (Inl e, r2) \<Rightarrow> (Inl e, r2)
              | (Inr n, r2) \<Rightarrow> (Inr (sint (of_nat n :: u32)), r2))
           else if b = typeCodeLong then
             (case binary_Read r1 8 of
                (Inl e, r2) \<Rightarrow> (Inl e, r2)
              | (Inr n, r2) \<Rightarrow> (Inr (sint (of_nat n :: u64)), r2))
           else (Inl (errorErrorf ''type code %x is not a recognized number type''), r1)))"

text \<open>
  The number of bytes \<^verbatim>\<open>readInt\<close> reads after each type code its switch accepts, in
  the order of the switch; \<open>None\<close> for a code it rejects.
\<close>

definition intWidth :: "amqpType \<Rightarrow> nat option" where
  "intWidth b =
     (if b = typeCodeUint0 \<or> b = typeCodeUlong0 then Some 0
      else if b = typeCodeUbyte \<or> b = typeCodeSmallUint \<or> b = typeCodeSmallUlong then Some 1
      else if b = typeCodeUshort then Some 2
      else if b = typeCodeUint then Some 4
      else if b = typeCodeUlong then Some 8
      else if b = typeCodeByte \<or> b = typeCodeSmallint \<or> b = typeCodeSmalllong then Some 1
      else if b = typeCodeShort then Some 2
      else if b = typeCodeInt then Some 4
      else if b = typeCodeLong then Some 8
      else None)"

definition readBool :: "reader \<Rightarrow> (error + bool) \<times> reader" where
  "readBool r =
     (case ReadByte r of
        (Inl e, r') \<Rightarrow> (Inl e, r')
      | (Inr b, r1) \<Rightarrow>
          (if b = typeCodeNull then (Inl errNull, r1)
           else if b = typeCodeBool then
             (case ReadByte r1 of
                (Inl e, r2) \<Rightarrow> (Inl e, r2)
              | (Inr b', r2) \<Rightarrow> (Inr (b' \<noteq> 0), r2))
           else if b = typeCodeBoolTrue then (Inr True, r1)
           else if b = typeCodeBoolFalse then (Inr False, r1)
           else (Inl (errorErrorf ''type code %x is not a recognized bool type''), r1)))"

definition readUint :: "reader \<Rightarrow> (error + u64) \<times> reader" where
  "readUint r =
     (case ReadByte r of
        (Inl e, r') \<Rightarrow> (Inl e, r')
      | (Inr b, r1) \<Rightarrow>
          (if b = typeCodeNull then (Inl errNull, r1)
           else if b = typeCodeUint0 \<or> b = typeCodeUlong0 then (Inr 0, r1)
           else if b = typeCodeUbyte \<or> b = typeCodeSmallUint \<or> b = typeCodeSmallUlong then
             (case ReadByte r1 of
                (Inl e, r2) \<Rightarrow> (Inl e, r2)
              | (Inr n, r2) \<Rightarrow> (Inr (ucast n), r2))
           else if b = typeCodeUshort then
             (case binary_Read r1 2 of
                (Inl e, r2) \<Rightarrow> (Inl e, r2)
              | (Inr n, r2) \<Rightarrow> (Inr (ucast (of_nat n :: u16)), r2))
           else if b = typeCodeUint then
             (case binary_Read r1 4 of
                (Inl e, r2) \<Rightarrow> (Inl e, r2)
              | (Inr n, r2) \<Rightarrow> (Inr (ucast (of_nat n :: u32)), r2))
           else if b = typeCodeUlong then
             (case binary_Read r1 8 of
                (Inl e, r2) \<Rightarrow> (Inl e, r2)
              | (Inr n, r2) \<Rightarrow> (Inr (of_nat n), r2))
           else (Inl (errorErrorf ''type code %x is not a recognized number type''), r1)))"

text \<open>
  What \<^verbatim>\<open>readAny\<close> returns in its \<^verbatim>\<open>interface{}\<close>: nil, or the value of the reader it
  dispatched to, with that reader's type.
\<close>

datatype any =
    ANil
  | ABool bool
  | AUint64 u64
  | AInt int
  | ABytes bytes
  | AString bytes
  | ATime Time

definition box :: "('a \<Rightarrow> any) \<Rightarrow> (error + 'a) \<times> reader \<Rightarrow> (error + any) \<times> reader" where
  "box c res = (case res of (Inl e, r') \<Rightarrow> (Inl e, r') | (Inr v, r') \<Rightarrow> (Inr (c v), r'))"

definition readAny :: "reader \<Rightarrow> (error + any) \<times> reader" where
  "readAny r =
     (case ReadByte r of
        (Inl e, r') \<Rightarrow> (Inl e, r')
      | (Inr b, r1) \<Rightarrow>
          (if b = typeCodeNull then (Inr ANil, r1)
           else
             (case UnreadByte r1 of
                (Some e, r2) \<Rightarrow> (Inl e, r2)
              | (None, r2) \<Rightarrow>
                  (if b = typeCodeBool \<or> b = typeCodeBoolTrue \<or> b = typeCodeBoolFalse then
                     box ABool (readBool r2)
                   else if b = typeCodeUbyte \<or> b = typeCodeUshort \<or> b = typeCodeUint
                           \<or> b = typeCodeSmallUint \<or> b = typeCodeUint0 \<or> b = typeCodeUlong
                           \<or> b = typeCodeSmallUlong \<or> b = typeCodeUlong0 then
                     box AUint64 (readUint r2)
                   else if b = typeCodeByte \<or> b = typeCodeShort \<or> b = typeCodeInt
                           \<or> b = typeCodeSmallint \<or> b = typeCodeLong \<or> b = typeCodeSmalllong then
                     box AInt (readInt r2)
                   else if b = typeCodeFloat \<or> b = typeCodeDouble \<or> b = typeCodeDecimal32
                           \<or> b = typeCodeDecimal64 \<or> b = typeCodeDecimal128 \<or> b = typeCodeChar
                           \<or> b = typeCodeUUID \<or> b = typeCodeList0 \<or> b = typeCodeList8
                           \<or> b = typeCodeList32 \<or> b = typeCodeMap8 \<or> b = typeCodeMap32
                           \<or> b = typeCodeArray8 \<or> b = typeCodeArray32 then
                     (Inl (errorErrorf ''%0x not implemented''), r2)
                   else if b = typeCodeVbin8 \<or> b = typeCodeVbin32 then
                     box ABytes (readBinary r2)
                   else if b = typeCodeStr8 \<or> b = typeCodeStr32 \<or> b = typeCodeSym8
                           \<or> b = typeCodeSym32 then
                     box AString (readString r2)
                   else if b = typeCodeTimestamp then
                     box ATime (readTimestamp r2)
                   else (Inl (errorErrorf ''unknown type %0x''), r2)))))"

subsection \<open>\<^verbatim>\<open>unmarshal\<close>\<close>

text \<open>
  The sink \<^verbatim>\<open>unmarshal\<close> is given is a pointer; the model holds the pointer's type and
  the value it points to, and returns the value the pointer is left with.

  \<^verbatim>\<open>unmarshal\<close> calls itself through \<^verbatim>\<open>milliseconds.unmarshal\<close> (on a
  \<^verbatim>\<open>*uint32\<close>), through \<^verbatim>\<open>mapReader.next\<close> (whose callers pass a \<^verbatim>\<open>*string\<close>, a
  \<^verbatim>\<open>*Symbol\<close> or a \<^verbatim>\<open>*interface{}\<close>) and on the target of a pointer to a pointer. The
  cases of the type switch that those inner calls reach make no further call, so they are
  given first, as \<open>unmarshalPrim\<close> over the sinks \<open>psink\<close>; \<open>unmarshal\<close> below adds
  the remaining cases.
\<close>

datatype psink =
    PInt int
  | PUint64 u64
  | PUint32 u32
  | PUint16 u16
  | PUint8 u8
  | PString (the_string: bytes)
  | PSymbols "bytes list"
  | PSymbol (the_symbol: bytes)
  | PBytes bytes
  | PBool bool
  | PTime Time
  | PAny (the_any: any)

text \<open>The deferred function of \<^verbatim>\<open>unmarshal\<close>, applied to the named results.\<close>

definition deferNull :: "bool \<times> error option \<Rightarrow> bool \<times> error option" where
  "deferNull res = (case res of (null, err) \<Rightarrow>
     if err = Some errNull then (True, None) else (null, err))"

text \<open>
  One case of the type switch: \<^verbatim>\<open>val, err := read(r); if err != nil { return null, err };
  *t = conv(val)\<close>, then \<^verbatim>\<open>return null, nil\<close>.
\<close>

definition assign ::
  "psink \<Rightarrow> ('a \<Rightarrow> psink) \<Rightarrow> (error + 'a) \<times> reader \<Rightarrow> (bool \<times> error option) \<times> psink \<times> reader" where
  "assign t conv res =
     (case res of
        (Inl e, r') \<Rightarrow> (deferNull (False, Some e), t, r')
      | (Inr v, r') \<Rightarrow> (deferNull (False, None), conv v, r'))"

fun unmarshalPrim :: "reader \<Rightarrow> psink \<Rightarrow> (bool \<times> error option) \<times> psink \<times> reader" where
  "unmarshalPrim r (PInt t) = assign (PInt t) PInt (readInt r)"
| "unmarshalPrim r (PUint64 t) = assign (PUint64 t) (\<lambda>v. PUint64 v) (readUint r)"
| "unmarshalPrim r (PUint32 t) = assign (PUint32 t) (\<lambda>v. PUint32 (ucast v)) (readUint r)"
| "unmarshalPrim r (PUint16 t) = assign (PUint16 t) (\<lambda>v. PUint16 (ucast v)) (readUint r)"
| "unmarshalPrim r (PUint8 t) = assign (PUint8 t) (\<lambda>v. PUint8 (ucast v)) (readUint r)"
| "unmarshalPrim r (PString t) = assign (PString t) PString (readString r)"
| "unmarshalPrim r (PSymbols t) = assign (PSymbols t) PSymbols (readSymbolArray r)"
| "unmarshalPrim r (PSymbol t) = assign (PSymbol t) PSymbol (readString r)"
| "unmarshalPrim r (PBytes t) = assign (PBytes t) PBytes (readBinary r)"
| "unmarshalPrim r (PBool t) = assign (PBool t) PBool (readBool r)"
| "unmarshalPrim r (PTime t) = assign (PTime t) PTime (readTimestamp r)"
| "unmarshalPrim r (PAny t) = assign (PAny t) PAny (readAny r)"

text \<open>
  \<^verbatim>\<open>milliseconds.unmarshal\<close>: the duration is assigned whatever the inner call returns,
  and the inner call's null result is dropped. A duration is a signed 64-bit count of
  nanoseconds.
\<close>

definition milliseconds_unmarshal :: "reader \<Rightarrow> u64 \<Rightarrow> error option \<times> u64 \<times> reader" where
  "milliseconds_unmarshal r m =
     (case unmarshalPrim r (PUint32 0) of
        ((_, err), n, r') \<Rightarrow>
          (err, (case n of PUint32 v \<Rightarrow> ucast v * 1000000 | _ \<Rightarrow> 0), r'))"

subsection \<open>Maps, read\<close>

record mapReader =
  mr_r :: reader
  mr_count :: nat
  mr_read :: nat

definition mapReader_pairs :: "mapReader \<Rightarrow> nat" where
  "mapReader_pairs mr = mr_count mr div 2"

definition mapReader_more :: "mapReader \<Rightarrow> bool" where
  "mapReader_more mr = (mr_read mr < mr_count mr)"

text \<open>
  \<^verbatim>\<open>mapReader.next\<close> returns its error, the map reader (with the reader it holds) and
  the two sinks as it leaves them.
\<close>

definition mapReader_next :: "mapReader \<Rightarrow> psink \<Rightarrow> psink \<Rightarrow> error option \<times> mapReader \<times> psink \<times> psink" where
  "mapReader_next mr key val =
     (case unmarshalPrim (mr_r mr) key of
        ((_, Some e), key', r') \<Rightarrow> (Some e, mr\<lparr>mr_r := r'\<rparr>, key', val)
      | ((_, None), key', r') \<Rightarrow>
          (case unmarshalPrim r' val of
             ((_, Some e), val', r'') \<Rightarrow>
               (Some e, mr\<lparr>mr_r := r'', mr_read := mr_read mr + 1\<rparr>, key', val')
           | ((_, None), val', r'') \<Rightarrow>
               (None, mr\<lparr>mr_r := r'', mr_read := mr_read mr + 1 + 1\<rparr>, key', val')))"

text \<open>
  \<^verbatim>\<open>newMapReader\<close>: on success the map reader holds a \<^verbatim>\<open>limitReader\<close> around the
  reader, as it is after the header.
\<close>

definition newMapReader :: "reader \<Rightarrow> (error \<times> reader) + mapReader" where
  "newMapReader r =
     (case ReadByte r of
        (Inl e, r') \<Rightarrow> Inl (e, r')
      | (Inr b, r1) \<Rightarrow>
          (case (if b = typeCodeNull then (Inl errNull, r1)
                 else if b = typeCodeMap8 then
                   (case ReadByte r1 of
                      (Inl e, r2) \<Rightarrow> (Inl e, r2)
                    | (Inr bn, r2) \<Rightarrow> (Inr (ucast bn :: u32), r2))
                 else if b = typeCodeMap32 then
                   (case binary_Read r1 4 of
                      (Inl e, r2) \<Rightarrow> (Inl e, r2)
                    | (Inr k, r2) \<Rightarrow> (Inr (of_nat k :: u32), r2))
                 else (Inl (errorErrorf ''invalid map type %x''), r1)) of
             (Inl e, r2) \<Rightarrow> Inl (e, r2)
           | (Inr n, r2) \<Rightarrow>
               (if Len r2 < unat n then Inl (errInvalidLength, r2)
                else
                  (case ReadByte r2 of
                     (Inl e, r3) \<Rightarrow> Inl (e, r3)
                   | (Inr b', r3) \<Rightarrow>
                       Inr \<lparr>mr_r = limitReader r3 n 0, mr_count = unat b', mr_read = 0\<rparr>))))"

lemma mapReader_next_read:
  "mapReader_next mr key val = (None, mr', key', val') \<Longrightarrow>
     mr_read mr' = mr_read mr + 2 \<and> mr_count mr' = mr_count mr"
  by (auto simp: mapReader_next_def split: prod.splits option.splits)

text \<open>
  The loops of the three map decoders, with the map built so far. A Go map is a list of
  pairs with one entry for a key; \<^verbatim>\<open>mm[key] = value\<close> is \<open>AList.update\<close>.
\<close>

text \<open>
  The key check of \<^verbatim>\<open>mapAnyAny.unmarshal\<close>: of the values \<^verbatim>\<open>readAny\<close> returns, a
  \<^verbatim>\<open>[]byte\<close> is the one whose kind is a slice, function or map.
\<close>

definition invalidMapKey :: "any \<Rightarrow> bool" where
  "invalidMapKey key = (case key of ABytes _ \<Rightarrow> True | _ \<Rightarrow> False)"

function mapAnyAny_loop ::
  "mapReader \<Rightarrow> (any \<times> any) list \<Rightarrow> (error + (any \<times> any) list) \<times> mapReader" where
  "mapAnyAny_loop mr mm =
     (if mapReader_more mr then
        (case mapReader_next mr (PAny ANil) (PAny ANil) of
           (Some e, mr', _, _) \<Rightarrow> (Inl e, mr')
         | (None, mr', key, val) \<Rightarrow>
             (if invalidMapKey (the_any key) then (Inl (errorNew ''invalid map key''), mr')
              else mapAnyAny_loop mr' (AList.update (the_any key) (the_any val) mm)))
      else (Inr mm, mr))"
  by pat_completeness auto
termination
proof (relation "measure (\<lambda>(mr, mm). mr_count mr - mr_read mr)", goal_cases)
  case 1
  show ?case by simp
next
  case (2 mr mm x1 x2 mr' x3 key val)
  then have "mapReader_next mr (PAny ANil) (PAny ANil) = (None, mr', key, val)" by simp
  from mapReader_next_read [OF this] 2(1) show ?case
    by (simp add: mapReader_more_def)
qed

function mapStringAny_loop ::
  "mapReader \<Rightarrow> (bytes \<times> any) list \<Rightarrow> (error + (bytes \<times> any) list) \<times> mapReader" where
  "mapStringAny_loop mr mm =
     (if mapReader_more mr then
        (case mapReader_next mr (PString []) (PAny ANil) of
           (Some e, mr', _, _) \<Rightarrow> (Inl e, mr')
         | (None, mr', key, val) \<Rightarrow>
             mapStringAny_loop mr' (AList.update (the_string key) (the_any val) mm))
      else (Inr mm, mr))"
  by pat_completeness auto
termination
proof (relation "measure (\<lambda>(mr, mm). mr_count mr - mr_read mr)", goal_cases)
  case 1
  show ?case by simp
next
  case (2 mr mm x1 x2 mr' x3 key val)
  then have "mapReader_next mr (PString []) (PAny ANil) = (None, mr', key, val)" by simp
  from mapReader_next_read [OF this] 2(1) show ?case
    by (simp add: mapReader_more_def)
qed

function mapSymbolAny_loop ::
  "mapReader \<Rightarrow> (bytes \<times> any) list \<Rightarrow> (error + (bytes \<times> any) list) \<times> mapReader" where
  "mapSymbolAny_loop mr m =
     (if mapReader_more mr then
        (case mapReader_next mr (PSymbol []) (PAny ANil) of
           (Some e, mr', _, _) \<Rightarrow> (Inl e, mr')
         | (None, mr', key, val) \<Rightarrow>
             mapSymbolAny_loop mr' (AList.update (the_symbol key) (the_any val) m))
      else (Inr m, mr))"
  by pat_completeness auto
termination
proof (relation "measure (\<lambda>(mr, m). mr_count mr - mr_read mr)", goal_cases)
  case 1
  show ?case by simp
next
  case (2 mr m x1 x2 mr' x3 key val)
  then have "mapReader_next mr (PSymbol []) (PAny ANil) = (None, mr', key, val)" by simp
  from mapReader_next_read [OF this] 2(1) show ?case
    by (simp add: mapReader_more_def)
qed

text \<open>
  The three \<^verbatim>\<open>unmarshal\<close> methods of the map types: the error, the map the pointer is
  left with (assigned on success only) and the caller's reader, which is the one the
  \<^verbatim>\<open>limitReader\<close> wraps.
\<close>

definition mapAnyAny_unmarshal ::
  "reader \<Rightarrow> (any \<times> any) list \<Rightarrow> error option \<times> (any \<times> any) list \<times> reader" where
  "mapAnyAny_unmarshal r m =
     (case newMapReader r of
        Inl (e, r') \<Rightarrow> (Some e, m, r')
      | Inr mr \<Rightarrow>
          (case mapAnyAny_loop mr [] of
             (Inl e, mr') \<Rightarrow> (Some e, m, lr_reader (mr_r mr'))
           | (Inr mm, mr') \<Rightarrow> (None, mm, lr_reader (mr_r mr'))))"

definition mapStringAny_unmarshal ::
  "reader \<Rightarrow> (bytes \<times> any) list \<Rightarrow> error option \<times> (bytes \<times> any) list \<times> reader" where
  "mapStringAny_unmarshal r m =
     (case newMapReader r of
        Inl (e, r') \<Rightarrow> (Some e, m, r')
      | Inr mr \<Rightarrow>
          (case mapStringAny_loop mr [] of
             (Inl e, mr') \<Rightarrow> (Some e, m, lr_reader (mr_r mr'))
           | (Inr mm, mr') \<Rightarrow> (None, mm, lr_reader (mr_r mr'))))"

definition mapSymbolAny_unmarshal ::
  "reader \<Rightarrow> (bytes \<times> any) list \<Rightarrow> error option \<times> (bytes \<times> any) list \<times> reader" where
  "mapSymbolAny_unmarshal r f =
     (case newMapReader r of
        Inl (e, r') \<Rightarrow> (Some e, f, r')
      | Inr mr \<Rightarrow>
          (case mapSymbolAny_loop mr [] of
             (Inl e, mr') \<Rightarrow> (Some e, f, lr_reader (mr_r mr'))
           | (Inr m, mr') \<Rightarrow> (None, m, lr_reader (mr_r mr'))))"

text \<open>
  Every sink of \<^verbatim>\<open>unmarshal\<close>. \<open>SMilliseconds\<close> is the \<^verbatim>\<open>unmarshaler\<close> of this file;
  \<open>SPtr isNil t\<close> is a pointer to a pointer, whose inner pointer is nil or not and
  points (once allocated) to \<open>t\<close>; \<open>SOther\<close> is any other value.
\<close>

datatype sink =
    Prim psink
  | SMilliseconds u64
  | SMapAnyAny "(any \<times> any) list"
  | SMapStringAny "(bytes \<times> any) list"
  | SMapSymbolAny "(bytes \<times> any) list"
  | SPtr bool sink
  | SOther

fun unmarshal :: "reader \<Rightarrow> sink \<Rightarrow> (bool \<times> error option) \<times> sink \<times> reader" where
  "unmarshal r (SMilliseconds m) =
     (case milliseconds_unmarshal r m of
        (err, m', r') \<Rightarrow> (deferNull (False, err), SMilliseconds m', r'))"
| "unmarshal r (Prim t) =
     (case unmarshalPrim r t of (res, t', r') \<Rightarrow> (res, Prim t', r'))"
| "unmarshal r (SMapAnyAny t) =
     (case mapAnyAny_unmarshal r t of
        (err, t', r') \<Rightarrow> (deferNull (False, err), SMapAnyAny t', r'))"
| "unmarshal r (SMapStringAny t) =
     (case mapStringAny_unmarshal r t of
        (err, t', r') \<Rightarrow> (deferNull (False, err), SMapStringAny t', r'))"
| "unmarshal r (SMapSymbolAny t) =
     (case mapSymbolAny_unmarshal r t of
        (err, t', r') \<Rightarrow> (deferNull (False, err), SMapSymbolAny t', r'))"
| "unmarshal r (SPtr isNil t) =
     (case unmarshal r t of (res, t', r') \<Rightarrow> (deferNull res, SPtr False t', r'))"
| "unmarshal r SOther = (deferNull (False, Some (errorErrorf ''unable to unmarshal %T'')), SOther, r)"

subsection \<open>Composites, read\<close>

text \<open>\<^verbatim>\<open>readCompositeHeader\<close> returns the descriptor, narrowed to a type code, and the field count.\<close>

definition readCompositeHeader :: "reader \<Rightarrow> (error + amqpType \<times> nat) \<times> reader" where
  "readCompositeHeader r =
     (case ReadByte r of
        (Inl e, r') \<Rightarrow> (Inl e, r')
      | (Inr byt, r1) \<Rightarrow>
          (if byt = typeCodeNull then (Inl errNull, r1)
           else if byt \<noteq> 0 then (Inl (errorErrorf ''invalid composite header %0x''), r1)
           else
             (case readInt r1 of
                (Inl e, r2) \<Rightarrow> (Inl e, r2)
              | (Inr v, r2) \<Rightarrow>
                  (case readHeaderSlice r2 of
                     (Inl e, r3) \<Rightarrow> (Inl e, r3)
                   | (Inr (flds, _), r3) \<Rightarrow> (Inr (of_int v, flds), r3)))))"

text \<open>
  The schema \<^verbatim>\<open>unmarshalComposite\<close> is given: each field is a sink and an optional
  null handler. A null handler is a closure over pointers into the value being decoded;
  it is modelled by what it does to the sinks of the schema, which are kept as a list in
  the order of the fields, a pointer being the position of the sink it points to.
\<close>

type_synonym nullHandler = "sink list \<Rightarrow> error option \<times> sink list"

record unmarshalField =
  uf_field :: sink
  uf_handleNull :: "nullHandler option"

definition required :: "string \<Rightarrow> nullHandler" where
  "required name = (\<lambda>ss. (Some (errorNew (name @ '' is required'')), ss))"

definition defaultUint32 :: "nat \<Rightarrow> u32 \<Rightarrow> nullHandler" where
  "defaultUint32 n defaultValue = (\<lambda>ss. (None, ss[n := Prim (PUint32 defaultValue)]))"

definition defaultUint16 :: "nat \<Rightarrow> u16 \<Rightarrow> nullHandler" where
  "defaultUint16 n defaultValue = (\<lambda>ss. (None, ss[n := Prim (PUint16 defaultValue)]))"

definition defaultUint8 :: "nat \<Rightarrow> u8 \<Rightarrow> nullHandler" where
  "defaultUint8 n defaultValue = (\<lambda>ss. (None, ss[n := Prim (PUint8 defaultValue)]))"

definition defaultSymbol :: "nat \<Rightarrow> bytes \<Rightarrow> nullHandler" where
  "defaultSymbol n defaultValue = (\<lambda>ss. (None, ss[n := Prim (PSymbol defaultValue)]))"

text \<open>The first loop of \<^verbatim>\<open>unmarshalComposite\<close>, over the indices still to do.\<close>

fun unmarshalFields ::
  "reader \<Rightarrow> nullHandler option list \<Rightarrow> nat list \<Rightarrow> sink list \<Rightarrow> error option \<times> sink list \<times> reader" where
  "unmarshalFields r hs [] ss = (None, ss, r)"
| "unmarshalFields r hs (i # is) ss =
     (case unmarshal r (ss ! i) of
        ((null, Some e), t, r') \<Rightarrow> (Some (errorWrapf e ''unmarshaling field %d''), ss[i := t], r')
      | ((null, None), t, r') \<Rightarrow>
          (case (if null then hs ! i else None) of
             None \<Rightarrow> unmarshalFields r' hs is (ss[i := t])
           | Some h \<Rightarrow>
               (case h (ss[i := t]) of
                  (Some e, ss') \<Rightarrow> (Some e, ss', r')
                | (None, ss') \<Rightarrow> unmarshalFields r' hs is ss')))"

text \<open>The second loop: the null handlers of the fields the sender left out.\<close>

fun remainingFields :: "nullHandler option list \<Rightarrow> nat list \<Rightarrow> sink list \<Rightarrow> error option \<times> sink list" where
  "remainingFields hs [] ss = (None, ss)"
| "remainingFields hs (i # is) ss =
     (case hs ! i of
        None \<Rightarrow> remainingFields hs is ss
      | Some h \<Rightarrow>
          (case h ss of
             (Some e, ss') \<Rightarrow> (Some e, ss')
           | (None, ss') \<Rightarrow> remainingFields hs is ss'))"

definition unmarshalComposite ::
  "reader \<Rightarrow> amqpType \<Rightarrow> unmarshalField list \<Rightarrow> error option \<times> sink list \<times> reader" where
  "unmarshalComposite r typ flds =
     (case readCompositeHeader r of
        (Inl e, r') \<Rightarrow> (Some e, map uf_field flds, r')
      | (Inr (t, numFields), r') \<Rightarrow>
          (if t \<noteq> typ then
             (Some (errorErrorf ''invalid header %#0x for %#0x''), map uf_field flds, r')
           else if length flds < numFields then
             (Some (errorErrorf ''invalid field count %d for %#0x''), map uf_field flds, r')
           else
             (case unmarshalFields r' (map uf_handleNull flds) [0 ..< numFields]
                     (map uf_field flds) of
                (Some e, ss, r'') \<Rightarrow> (Some e, ss, r'')
              | (None, ss, r'') \<Rightarrow>
                  (case remainingFields (map uf_handleNull flds) [numFields ..< length flds] ss of
                     (err, ss') \<Rightarrow> (err, ss', r'')))))"

section \<open>Properties\<close>

subsection \<open>Helper lemmas\<close>

lemma ValidString_ascii: "list_all (\<lambda>b. b < 0x80) s \<Longrightarrow> ValidString s"
  by (induction s) auto

lemma concat_replicate_single: "concat (replicate n [x]) = replicate n x"
  by (induction n) auto

lemma ReadByte_Bytes:
  "Bytes r = b # rest \<Longrightarrow>
     \<exists>r'. ReadByte r = (Inr b, r') \<and> Bytes r' = rest \<and> Len r' = length rest"
proof (induction r)
  case (BytesBuffer x)
  then show ?case
    by (auto simp: Buffer_Bytes_def Buffer_ReadByte_def Buffer_empty_def Buffer_Len_def
        drop_Suc nth_via_drop tl_drop
        dest: arg_cong [where f = tl] arg_cong [where f = length])
next
  case (limitReader r lim rd)
  then show ?case by auto
qed

lemma unat_u8_le: "unat (b :: u8) \<le> 255"
  using unsigned_less [of b, where ?'a = nat] by simp

lemma Buffer_Len_Bytes: "Buffer_Len b = length (Buffer_Bytes b)"
  by (simp add: Buffer_Len_def Buffer_Bytes_def)

lemma Buffer_ReadByte_Bytes:
  "Buffer_Bytes b = x # rest \<Longrightarrow>
     \<exists>b'. ReadByte (BytesBuffer b) = (Inr x, BytesBuffer b') \<and> Buffer_Bytes b' = rest"
  using ReadByte_Bytes [of "BytesBuffer b" x rest]
  by (auto split: prod.splits)

lemma Buffer_ReadFull_Bytes:
  assumes "Buffer_Bytes b = xs @ rest"
  shows "\<exists>b'. ReadFull (BytesBuffer b) (length xs) = (Inr xs, BytesBuffer b') \<and> Buffer_Bytes b' = rest"
proof (cases xs)
  case Nil
  with assms show ?thesis by (simp add: ReadFull_def)
next
  case (Cons x xs')
  with assms have ne: "\<not> Buffer_empty b"
    by (auto simp: Buffer_empty_def Buffer_Bytes_def)
  from assms have tk: "take (length xs) (drop (b_off b) (b_buf b)) = xs"
    by (simp add: Buffer_Bytes_def)
  from assms have dr: "drop (b_off b + length xs) (b_buf b) = rest"
    by (metis Buffer_Bytes_def add.commute append_eq_conv_conj drop_drop)
  from ne tk dr Cons show ?thesis
    by (simp add: ReadFull_def Buffer_Read_def Buffer_Bytes_def)
qed

lemma be_nat4_bound: "be_nat [a, b, c, d] < 2 ^ 32"
  using unat_u8_le [of a] unat_u8_le [of b] unat_u8_le [of c] unat_u8_le [of d]
  by (simp add: be_nat_def)

lemma newMapReader_Map32:
  assumes "Buffer_Bytes b = typeCodeMap32 # s3 # s2 # s1 # s0 # c # rest"
    and "be_nat [s3, s2, s1, s0] \<le> Suc (length rest)"
  shows "\<exists>b'. newMapReader (BytesBuffer b) =
           Inr \<lparr>mr_r = limitReader (BytesBuffer b') (of_nat (be_nat [s3, s2, s1, s0])) 0,
                mr_count = unat c, mr_read = 0\<rparr> \<and> Buffer_Bytes b' = rest"
proof -
  from Buffer_ReadByte_Bytes [OF assms(1)] obtain b1 where
    b1: "ReadByte (BytesBuffer b) = (Inr typeCodeMap32, BytesBuffer b1)"
        "Buffer_Bytes b1 = [s3, s2, s1, s0] @ c # rest" by auto
  from Buffer_ReadFull_Bytes [OF b1(2)] obtain b2 where
    "ReadFull (BytesBuffer b1) (length [s3, s2, s1, s0]) = (Inr [s3, s2, s1, s0], BytesBuffer b2)"
    and b2': "Buffer_Bytes b2 = c # rest" by blast
  then have b2: "ReadFull (BytesBuffer b1) 4 = (Inr [s3, s2, s1, s0], BytesBuffer b2)"
    by (simp add: eval_nat_numeral)
  from Buffer_ReadByte_Bytes [OF b2'] obtain b3 where
    b3: "ReadByte (BytesBuffer b2) = (Inr c, BytesBuffer b3)" "Buffer_Bytes b3 = rest" by auto
  have u: "unat (of_nat (be_nat [s3, s2, s1, s0]) :: u32) = be_nat [s3, s2, s1, s0]"
    using be_nat4_bound [of s3 s2 s1 s0] by (simp add: unat_of_nat)
  from b1 b2 b2' b3 u assms(2) show ?thesis
    by (simp add: newMapReader_def binary_Read_def Buffer_Len_Bytes)
qed

lemma newMapReader_Map8:
  assumes "Buffer_Bytes b = typeCodeMap8 # sz # c # rest"
    and "unat sz \<le> Suc (length rest)"
  shows "\<exists>b'. newMapReader (BytesBuffer b) =
           Inr \<lparr>mr_r = limitReader (BytesBuffer b') (ucast sz) 0,
                mr_count = unat c, mr_read = 0\<rparr> \<and> Buffer_Bytes b' = rest"
proof -
  from Buffer_ReadByte_Bytes [OF assms(1)] obtain b1 where
    b1: "ReadByte (BytesBuffer b) = (Inr typeCodeMap8, BytesBuffer b1)"
        "Buffer_Bytes b1 = sz # c # rest" by auto
  from Buffer_ReadByte_Bytes [OF b1(2)] obtain b2 where
    b2: "ReadByte (BytesBuffer b1) = (Inr sz, BytesBuffer b2)"
        "Buffer_Bytes b2 = c # rest" by auto
  from Buffer_ReadByte_Bytes [OF b2(2)] obtain b3 where
    b3: "ReadByte (BytesBuffer b2) = (Inr c, BytesBuffer b3)" "Buffer_Bytes b3 = rest" by auto
  have u: "unat (ucast sz :: u32) = unat sz"
    using unat_u8_le [of sz] by (simp add: unsigned_ucast_eq take_bit_nat_eq_self)
  from b1 b2 b3 u assms(2) show ?thesis
    by (simp add: newMapReader_def Buffer_Len_Bytes)
qed

lemma newMapReader_count: "newMapReader r = Inr mr \<Longrightarrow> mr_count mr \<le> 255"
  by (auto simp: newMapReader_def unat_u8_le split: prod.splits sum.splits if_splits)

lemma symbolElems_length: "symbolElems ofType symbols = Inr elems \<Longrightarrow> length elems = length symbols"
  by (induction symbols arbitrary: elems) (auto split: prod.splits option.splits sum.splits)

lemma writeSlice_nonempty: "writeSlice [] isArray ofType fs = (None, b) \<Longrightarrow> b \<noteq> []"
  by (auto simp: writeSlice_def Let_def split: if_splits)

lemma marshal_nonempty: "marshal [] v = (None, b) \<Longrightarrow> b \<noteq> []"
proof (cases v)
  case (VSymbols x)
  assume "marshal [] v = (None, b)"
  with VSymbols show ?thesis
    by (auto simp: writeSymbolArray_def writeArray_def Let_def dest: writeSlice_nonempty
        split: sum.splits)
next
  case (VPUint32 x)
  assume "marshal [] v = (None, b)"
  with VPUint32 show ?thesis
    by (cases x) (auto split: if_splits)
qed (auto simp: Symbol_marshal_def milliseconds_marshal_def marshal_uint32_def writeString_def
      writeBinary_def Let_def split: if_splits option.splits)

lemma marshalFields_length:
  "marshalFields flds i raw lst = Inr (raw', lst') \<Longrightarrow> length raw' = length raw"
  by (induction flds arbitrary: i raw lst) (auto split: if_splits prod.splits option.splits)

lemma marshalFields_nth:
  "marshalFields flds i raw lst = Inr (raw', lst') \<Longrightarrow> i + length flds \<le> length raw \<Longrightarrow>
     j < length raw \<Longrightarrow>
     raw' ! j = (if i \<le> j \<and> j < i + length flds \<and> \<not> mf_omit (flds ! (j - i))
                 then snd (marshal [] (mf_value (flds ! (j - i)))) else raw ! j)"
proof (induction flds arbitrary: i raw lst)
  case Nil
  then show ?case by auto
next
  case (Cons f flds)
  show ?case
  proof (cases "mf_omit f")
    case True
    with Cons.prems have "marshalFields flds (i + 1) raw lst = Inr (raw', lst')" by simp
    from Cons.IH [OF this] Cons.prems True show ?thesis
      by (auto simp: nth_Cons' Suc_diff_le)
  next
    case False
    with Cons.prems obtain b where b: "marshal [] (mf_value f) = (None, b)"
      and rec: "marshalFields flds (i + 1) (raw[i := b]) (int i) = Inr (raw', lst')"
      by (auto split: prod.splits option.splits)
    from Cons.IH [OF rec] Cons.prems False b show ?thesis
      by (auto simp: nth_Cons' nth_list_update Suc_diff_le)
  qed
qed

lemma marshalFields_ok:
  "marshalFields flds i raw lst = Inr (raw', lst') \<Longrightarrow> k < length flds \<Longrightarrow>
     \<not> mf_omit (flds ! k) \<Longrightarrow> fst (marshal [] (mf_value (flds ! k))) = None"
proof (induction flds arbitrary: i raw lst k)
  case Nil
  then show ?case by simp
next
  case (Cons f flds)
  then show ?case
    by (cases k) (auto split: if_splits prod.splits option.splits)
qed

lemma marshalFields_last:
  "marshalFields flds i raw lst = Inr (raw', lst') \<Longrightarrow> lst < int i \<Longrightarrow>
     lst' < int (i + length flds) \<and>
     (\<forall>k<length flds. lst' < int (i + k) \<longrightarrow> mf_omit (flds ! k)) \<and>
     (lst' = lst \<or> (\<exists>k<length flds. lst' = int (i + k) \<and> \<not> mf_omit (flds ! k)))"
proof (induction flds arbitrary: i raw lst)
  case Nil
  then show ?case by simp
next
  case (Cons f flds)
  show ?case
  proof (cases "mf_omit f")
    case True
    with Cons.prems have rec: "marshalFields flds (i + 1) raw lst = Inr (raw', lst')" by simp
    from Cons.prems have "lst < int (i + 1)" by simp
    from Cons.IH [OF rec this] have
      a: "lst' < int (i + 1 + length flds)" and
      b: "\<forall>k<length flds. lst' < int (i + 1 + k) \<longrightarrow> mf_omit (flds ! k)" and
      c: "lst' = lst \<or> (\<exists>k<length flds. lst' = int (i + 1 + k) \<and> \<not> mf_omit (flds ! k))"
      by blast+
    from a have 1: "lst' < int (i + length (f # flds))" by simp
    have 2: "\<forall>k<length (f # flds). lst' < int (i + k) \<longrightarrow> mf_omit ((f # flds) ! k)"
    proof (intro allI impI)
      fix k assume "k < length (f # flds)" "lst' < int (i + k)"
      with b True show "mf_omit ((f # flds) ! k)" by (cases k) auto
    qed
    from c have 3: "lst' = lst \<or>
        (\<exists>k<length (f # flds). lst' = int (i + k) \<and> \<not> mf_omit ((f # flds) ! k))"
    proof
      assume "lst' = lst" then show ?thesis by simp
    next
      assume "\<exists>k<length flds. lst' = int (i + 1 + k) \<and> \<not> mf_omit (flds ! k)"
      then obtain k where "k < length flds" "lst' = int (i + 1 + k)" "\<not> mf_omit (flds ! k)"
        by blast
      then have "Suc k < length (f # flds) \<and> lst' = int (i + Suc k) \<and>
          \<not> mf_omit ((f # flds) ! Suc k)" by simp
      then show ?thesis by blast
    qed
    from 1 2 3 show ?thesis by blast
  next
    case False
    with Cons.prems obtain b where
      rec: "marshalFields flds (i + 1) (raw[i := b]) (int i) = Inr (raw', lst')"
      by (auto split: prod.splits option.splits)
    have "int i < int (i + 1)" by simp
    from Cons.IH [OF rec this] have
      a: "lst' < int (i + 1 + length flds)" and
      b: "\<forall>k<length flds. lst' < int (i + 1 + k) \<longrightarrow> mf_omit (flds ! k)" and
      c: "lst' = int i \<or> (\<exists>k<length flds. lst' = int (i + 1 + k) \<and> \<not> mf_omit (flds ! k))"
      by blast+
    from a have 1: "lst' < int (i + length (f # flds))" by simp
    from c have ge: "int i \<le> lst'" by auto
    have 2: "\<forall>k<length (f # flds). lst' < int (i + k) \<longrightarrow> mf_omit ((f # flds) ! k)"
    proof (intro allI impI)
      fix k assume "k < length (f # flds)" "lst' < int (i + k)"
      with b ge show "mf_omit ((f # flds) ! k)" by (cases k) auto
    qed
    from c have 3: "\<exists>k<length (f # flds). lst' = int (i + k) \<and> \<not> mf_omit ((f # flds) ! k)"
    proof
      assume "lst' = int i"
      with False have "0 < length (f # flds) \<and> lst' = int (i + 0) \<and> \<not> mf_omit ((f # flds) ! 0)"
        by simp
      then show ?thesis by blast
    next
      assume "\<exists>k<length flds. lst' = int (i + 1 + k) \<and> \<not> mf_omit (flds ! k)"
      then obtain k where "k < length flds" "lst' = int (i + 1 + k)" "\<not> mf_omit (flds ! k)"
        by blast
      then have "Suc k < length (f # flds) \<and> lst' = int (i + Suc k) \<and>
          \<not> mf_omit ((f # flds) ! Suc k)" by simp
      then show ?thesis by blast
    qed
    from 1 2 3 show ?thesis by blast
  qed
qed

lemma fillNulls_fold:
  "n \<le> length raw \<Longrightarrow>
     length (fold (\<lambda>i raw. if raw ! i = [] then raw[i := [typeCodeNull]] else raw) [0 ..< n] raw) = length raw \<and>
     (\<forall>j<length raw.
        fold (\<lambda>i raw. if raw ! i = [] then raw[i := [typeCodeNull]] else raw) [0 ..< n] raw ! j =
          (if j < n \<and> raw ! j = [] then [typeCodeNull] else raw ! j))"
  by (induction n) (auto simp: nth_list_update less_Suc_eq)

lemma fillNulls_length: "nat (lst + 1) \<le> length raw \<Longrightarrow> length (fillNulls raw lst) = length raw"
  using fillNulls_fold [of "nat (lst + 1)" raw] by (simp add: fillNulls_def)

lemma fillNulls_nth:
  "nat (lst + 1) \<le> length raw \<Longrightarrow> j < nat (lst + 1) \<Longrightarrow>
     fillNulls raw lst ! j = (if raw ! j = [] then [typeCodeNull] else raw ! j)"
  using fillNulls_fold [of "nat (lst + 1)" raw] by (simp add: fillNulls_def)

lemma marshalComposite_elems:
  assumes "marshalComposite wr code flds = (None, out)"
  shows "\<exists>elems. length elems \<le> length flds \<and>
       (\<forall>i<length flds. length elems \<le> i \<longrightarrow> mf_omit (flds ! i)) \<and>
       (0 < length elems \<longrightarrow> \<not> mf_omit (flds ! (length elems - 1))) \<and>
       (\<forall>i<length elems. elems ! i =
          (if mf_omit (flds ! i) then [typeCodeNull]
           else snd (marshal [] (mf_value (flds ! i))))) \<and>
       writeList (wr @ [0x0, typeCodeSmallUlong, code]) elems = (None, out)"
proof -
  from assms obtain raw' lst' where
    mf: "marshalFields flds 0 (replicate (length flds) []) (- 1) = Inr (raw', lst')" and
    wl: "writeList (wr @ [0x0, typeCodeSmallUlong, code])
           (take (nat (lst' + 1)) (fillNulls raw' lst')) = (None, out)"
    by (auto simp: marshalComposite_def split: sum.splits)
  define n where "n = nat (lst' + 1)"
  define elems where "elems = take n (fillNulls raw' lst')"
  have len: "length raw' = length flds"
    using marshalFields_length [OF mf] by simp
  from marshalFields_last [OF mf] have
    a: "lst' < int (length flds)" and
    b: "\<forall>k<length flds. lst' < int k \<longrightarrow> mf_omit (flds ! k)" and
    c: "lst' = - 1 \<or> (\<exists>k<length flds. lst' = int k \<and> \<not> mf_omit (flds ! k))"
    by auto
  from a have nle: "n \<le> length flds" by (simp add: n_def)
  with len have nle': "nat (lst' + 1) \<le> length raw'" by (simp add: n_def)
  have lel: "length elems = n"
    using fillNulls_length [OF nle'] nle len by (simp add: elems_def)
  have 1: "\<forall>i<length flds. n \<le> i \<longrightarrow> mf_omit (flds ! i)"
    using b by (auto simp: n_def)
  have 2: "0 < n \<longrightarrow> \<not> mf_omit (flds ! (n - 1))"
  proof
    assume "0 < n"
    then have "lst' \<noteq> - 1" by (auto simp: n_def)
    with c obtain k where k: "lst' = int k" "\<not> mf_omit (flds ! k)" by blast
    then have "n - 1 = k" by (simp add: n_def nat_add_distrib)
    with k show "\<not> mf_omit (flds ! (n - 1))" by simp
  qed
  have 3: "\<forall>i<n. elems ! i =
      (if mf_omit (flds ! i) then [typeCodeNull] else snd (marshal [] (mf_value (flds ! i))))"
  proof (intro allI impI)
    fix i assume i: "i < n"
    with nle len have il: "i < length (replicate (length flds) ([] :: bytes))" by simp
    have raw: "raw' ! i = (if \<not> mf_omit (flds ! i) then snd (marshal [] (mf_value (flds ! i)))
                           else [])"
      using marshalFields_nth [OF mf _ il] i nle by simp
    have fl: "elems ! i = (if raw' ! i = [] then [typeCodeNull] else raw' ! i)"
      using fillNulls_nth [OF nle', of i] i by (simp add: elems_def n_def)
    show "elems ! i =
      (if mf_omit (flds ! i) then [typeCodeNull] else snd (marshal [] (mf_value (flds ! i))))"
    proof (cases "mf_omit (flds ! i)")
      case True
      with raw fl show ?thesis by simp
    next
      case False
      from i nle have "i < length flds" by simp
      from marshalFields_ok [OF mf this False]
      have "marshal [] (mf_value (flds ! i)) = (None, snd (marshal [] (mf_value (flds ! i))))"
        by (simp add: prod_eq_iff)
      from marshal_nonempty [OF this] False raw fl show ?thesis by simp
    qed
  qed
  from wl have 4: "writeList (wr @ [0x0, typeCodeSmallUlong, code]) elems = (None, out)"
    by (simp add: elems_def n_def)
  from nle lel 1 2 3 4 show ?thesis by auto
qed

lemma marshalComposite_five:
  assumes "marshal [] v0 = (None, e0)" and "marshal [] v2 = (None, e2)"
  shows "marshalComposite wr code
       [\<lparr>mf_value = v0, mf_omit = False\<rparr>, \<lparr>mf_value = v1, mf_omit = True\<rparr>,
        \<lparr>mf_value = v2, mf_omit = False\<rparr>, \<lparr>mf_value = v3, mf_omit = True\<rparr>,
        \<lparr>mf_value = v4, mf_omit = True\<rparr>] =
     writeList (wr @ [0x0, typeCodeSmallUlong, code]) [e0, [typeCodeNull], e2]"
proof -
  from assms have ne: "e0 \<noteq> []" "e2 \<noteq> []"
    using marshal_nonempty by blast+
  from assms ne show ?thesis
    by (simp add: marshalComposite_def fillNulls_def eval_nat_numeral)
qed

lemma writeList_wire:
  assumes "writeList w es = (None, out)"
  shows "(es = [] \<and> out = w @ [typeCodeList0]) \<or>
     (es \<noteq> [] \<and> length es < 256 \<and>
      out = w @ [typeCodeList8, of_nat (sum_list (map length es) + 1), of_nat (length es)]
              @ concat es) \<or>
     (es \<noteq> [] \<and> length es < 2 ^ 32 - 1 \<and>
      out = w @ [typeCodeList32] @ be32 (of_nat (sum_list (map length es) + 4))
              @ be32 (of_nat (length es)) @ concat es)"
  using assms by (auto simp: writeList_def writeSlice_def Let_def split: if_splits)

lemma Len_Bytes: "Len r = length (Bytes r)"
  by (induction r) (simp_all add: Buffer_Len_Bytes)

lemma Read_Bytes:
  "Bytes r = xs @ rest \<Longrightarrow> xs \<noteq> [] \<Longrightarrow>
     (\<exists>e. Read r (length xs) = (([], Some e), r)) \<or>
     (\<exists>r'. Read r (length xs) = ((xs, None), r') \<and> Bytes r' = rest)"
proof (induction r)
  case (BytesBuffer b)
  then have ne: "\<not> Buffer_empty b"
    by (auto simp: Buffer_empty_def Buffer_Bytes_def)
  from BytesBuffer have tk: "take (length xs) (drop (b_off b) (b_buf b)) = xs"
    by (simp add: Buffer_Bytes_def)
  from BytesBuffer have dr: "drop (b_off b + length xs) (b_buf b) = rest"
    by (metis Bytes.simps(1) Buffer_Bytes_def add.commute append_eq_conv_conj drop_drop)
  from ne tk dr show ?case
    by (simp add: Buffer_Read_def Buffer_Bytes_def)
next
  case (limitReader r lim rd)
  then have "(\<exists>e. Read r (length xs) = (([], Some e), r)) \<or>
     (\<exists>r'. Read r (length xs) = ((xs, None), r') \<and> Bytes r' = rest)"
    by simp
  then show ?case by auto
qed

lemma ReadFull_Bytes:
  assumes "Bytes r = xs @ rest"
  shows "(\<exists>e. ReadFull r (length xs) = (Inl e, r)) \<or>
     (\<exists>r'. ReadFull r (length xs) = (Inr xs, r') \<and> Bytes r' = rest)"
proof (cases xs)
  case Nil
  with assms show ?thesis by (simp add: ReadFull_def)
next
  case (Cons x xs')
  then have ne: "xs \<noteq> []" by simp
  from Read_Bytes [OF assms ne] show ?thesis
  proof
    assume "\<exists>e. Read r (length xs) = (([], Some e), r)"
    with ne have "\<exists>e. ReadFull r (length xs) = (Inl e, r)"
      by (auto simp: ReadFull_def)
    then show ?thesis ..
  next
    assume "\<exists>r'. Read r (length xs) = ((xs, None), r') \<and> Bytes r' = rest"
    with ne have "\<exists>r'. ReadFull r (length xs) = (Inr xs, r') \<and> Bytes r' = rest"
      by (auto simp: ReadFull_def)
    then show ?thesis ..
  qed
qed

lemma binary_Read_Bytes:
  assumes "Bytes r = xs @ rest"
  shows "(\<exists>e. binary_Read r (length xs) = (Inl e, r)) \<or>
     (\<exists>r'. binary_Read r (length xs) = (Inr (be_nat xs), r') \<and> Bytes r' = rest)"
  using ReadFull_Bytes [OF assms] by (auto simp: binary_Read_def)

lemma readInt_Bytes:
  assumes "Bytes r = c # p @ rest" and "intWidth c = Some (length p)"
  shows "(\<exists>e r' pre. readInt r = (Inl e, r') \<and> Bytes r' = pre @ rest) \<or>
     (\<exists>v r'. readInt r = (Inr v, r') \<and> Bytes r' = rest)"
proof -
  from ReadByte_Bytes [OF assms(1)] obtain r1 where
    r1: "ReadByte r = (Inr c, r1)" "Bytes r1 = p @ rest" by blast
  have rb: "length p = 1 \<Longrightarrow> \<exists>x r2. ReadByte r1 = (Inr x, r2) \<and> Bytes r2 = rest"
  proof -
    assume "length p = 1"
    then obtain x where "p = [x]" by (cases p) auto
    with r1(2) have "Bytes r1 = x # rest" by simp
    from ReadByte_Bytes [OF this] show ?thesis by blast
  qed
  have fin: "(\<exists>e r' pre. readInt r = (Inl e, r') \<and> Bytes r' = pre @ rest) \<or>
     (\<exists>v r'. readInt r = (Inr v, r') \<and> Bytes r' = rest)"
    if k: "length p = k" and
      ri: "readInt r = (case binary_Read r1 k of (Inl e, r2) \<Rightarrow> (Inl e, r2)
                        | (Inr n, r2) \<Rightarrow> (Inr (f n), r2))"
    for k and f :: "nat \<Rightarrow> int"
  proof -
    from binary_Read_Bytes [OF r1(2)] k have
      "(\<exists>e. binary_Read r1 k = (Inl e, r1)) \<or>
       (\<exists>r2. binary_Read r1 k = (Inr (be_nat p), r2) \<and> Bytes r2 = rest)" by simp
    then show ?thesis
    proof
      assume "\<exists>e. binary_Read r1 k = (Inl e, r1)"
      then obtain e where "binary_Read r1 k = (Inl e, r1)" ..
      with ri r1(2) have "readInt r = (Inl e, r1) \<and> Bytes r1 = p @ rest" by simp
      then show ?thesis by blast
    next
      assume "\<exists>r2. binary_Read r1 k = (Inr (be_nat p), r2) \<and> Bytes r2 = rest"
      then obtain r2 where "binary_Read r1 k = (Inr (be_nat p), r2)" "Bytes r2 = rest" by blast
      with ri have "readInt r = (Inr (f (be_nat p)), r2) \<and> Bytes r2 = rest" by simp
      then show ?thesis by blast
    qed
  qed
  consider (zero) "c = typeCodeUint0 \<or> c = typeCodeUlong0" "length p = 0"
    | (ubyte) "c = typeCodeUbyte \<or> c = typeCodeSmallUint \<or> c = typeCodeSmallUlong"
        "length p = 1"
    | (ushort) "c = typeCodeUshort" "length p = 2"
    | (uint) "c = typeCodeUint" "length p = 4"
    | (ulong) "c = typeCodeUlong" "length p = 8"
    | (byte) "c = typeCodeByte \<or> c = typeCodeSmallint \<or> c = typeCodeSmalllong"
        "length p = 1"
    | (short) "c = typeCodeShort" "length p = 2"
    | (int) "c = typeCodeInt" "length p = 4"
    | (long) "c = typeCodeLong" "length p = 8"
    using assms(2) by (auto simp: intWidth_def split: if_splits)
  then show ?thesis
  proof cases
    case zero
    with r1 have "readInt r = (Inr 0, r1) \<and> Bytes r1 = rest"
      by (auto simp: readInt_def)
    then show ?thesis by blast
  next
    case ubyte
    from rb [OF ubyte(2)] obtain x r2 where
      "ReadByte r1 = (Inr x, r2)" "Bytes r2 = rest" by blast
    with r1 ubyte(1) have "readInt r = (Inr (uint x), r2) \<and> Bytes r2 = rest"
      by (auto simp: readInt_def)
    then show ?thesis by blast
  next
    case ushort
    show ?thesis
      by (rule fin [OF ushort(2), of "\<lambda>n. uint (of_nat n :: u16)"])
         (simp add: readInt_def r1 ushort(1))
  next
    case uint
    show ?thesis
      by (rule fin [OF uint(2), of "\<lambda>n. uint (of_nat n :: u32)"])
         (simp add: readInt_def r1 uint(1))
  next
    case ulong
    show ?thesis
      by (rule fin [OF ulong(2), of "\<lambda>n. sint (of_nat n :: u64)"])
         (simp add: readInt_def r1 ulong(1))
  next
    case byte
    show ?thesis
    proof (rule fin [OF byte(2), of "\<lambda>n. sint (of_nat n :: u8)"])
      from byte(1) show "readInt r =
          (case binary_Read r1 1 of (Inl e, r2) \<Rightarrow> (Inl e, r2)
           | (Inr n, r2) \<Rightarrow> (Inr (sint (of_nat n :: u8)), r2))"
        by (auto simp: readInt_def r1)
    qed
  next
    case short
    show ?thesis
      by (rule fin [OF short(2), of "\<lambda>n. sint (of_nat n :: u16)"])
         (simp add: readInt_def r1 short(1))
  next
    case int
    show ?thesis
      by (rule fin [OF int(2), of "\<lambda>n. sint (of_nat n :: u32)"])
         (simp add: readInt_def r1 int(1))
  next
    case long
    show ?thesis
      by (rule fin [OF long(2), of "\<lambda>n. sint (of_nat n :: u64)"])
         (simp add: readInt_def r1 long(1))
  qed
qed

lemma readHeaderSlice_Bytes8:
  assumes "Bytes r = lc # sz # cnt # rest" and "lc = typeCodeList8 \<or> lc = typeCodeArray8"
  shows "\<exists>r'. Bytes r' = rest \<and>
     readHeaderSlice r =
       (if length rest < unat cnt then Inl errInvalidLength else Inr (unat cnt, unat sz), r')"
proof -
  from ReadByte_Bytes [OF assms(1)] obtain r1 where
    r1: "ReadByte r = (Inr lc, r1)" "Bytes r1 = sz # cnt # rest" by blast
  from ReadByte_Bytes [OF r1(2)] obtain r2 where
    r2: "ReadByte r1 = (Inr sz, r2)" "Bytes r2 = cnt # rest" by blast
  from ReadByte_Bytes [OF r2(2)] obtain r3 where
    r3: "ReadByte r2 = (Inr cnt, r3)" "Bytes r3 = rest" "Len r3 = length rest" by blast
  from r1 r2 r3 assms(2) have "readHeaderSlice r =
       (if length rest < unat cnt then Inl errInvalidLength else Inr (unat cnt, unat sz), r3)"
    by (auto simp: readHeaderSlice_def)
  with r3 show ?thesis by blast
qed

lemma readHeaderSlice_Bytes32:
  assumes "Bytes r = lc # s4 @ c4 @ rest" and "lc = typeCodeList32 \<or> lc = typeCodeArray32"
    and "length s4 = 4" and "length c4 = 4"
  shows "(\<exists>e r' pre. readHeaderSlice r = (Inl e, r') \<and> Bytes r' = pre @ rest) \<or>
     (\<exists>r'. readHeaderSlice r = (Inr (be_nat c4, be_nat s4), r') \<and> Bytes r' = rest \<and>
           be_nat c4 \<le> length rest)"
proof -
  from ReadByte_Bytes [OF assms(1)] obtain r1 where
    r1: "ReadByte r = (Inr lc, r1)" "Bytes r1 = s4 @ (c4 @ rest)" by blast
  from binary_Read_Bytes [OF r1(2)] assms(3) have
    "(\<exists>e. binary_Read r1 4 = (Inl e, r1)) \<or>
     (\<exists>r2. binary_Read r1 4 = (Inr (be_nat s4), r2) \<and> Bytes r2 = c4 @ rest)" by simp
  then show ?thesis
  proof
    assume "\<exists>e. binary_Read r1 4 = (Inl e, r1)"
    then obtain e where "binary_Read r1 4 = (Inl e, r1)" ..
    with r1 assms(2) have "readHeaderSlice r = (Inl e, r1) \<and> Bytes r1 = (s4 @ c4) @ rest"
      by (auto simp: readHeaderSlice_def)
    then show ?thesis by blast
  next
    assume "\<exists>r2. binary_Read r1 4 = (Inr (be_nat s4), r2) \<and> Bytes r2 = c4 @ rest"
    then obtain r2 where r2: "binary_Read r1 4 = (Inr (be_nat s4), r2)" "Bytes r2 = c4 @ rest"
      by blast
    from binary_Read_Bytes [OF r2(2)] assms(4) have
      "(\<exists>e. binary_Read r2 4 = (Inl e, r2)) \<or>
       (\<exists>r3. binary_Read r2 4 = (Inr (be_nat c4), r3) \<and> Bytes r3 = rest)" by simp
    then show ?thesis
    proof
      assume "\<exists>e. binary_Read r2 4 = (Inl e, r2)"
      then obtain e where "binary_Read r2 4 = (Inl e, r2)" ..
      with r1 r2 assms(2) have "readHeaderSlice r = (Inl e, r2) \<and> Bytes r2 = c4 @ rest"
        by (auto simp: readHeaderSlice_def)
      then show ?thesis by blast
    next
      assume "\<exists>r3. binary_Read r2 4 = (Inr (be_nat c4), r3) \<and> Bytes r3 = rest"
      then obtain r3 where r3: "binary_Read r2 4 = (Inr (be_nat c4), r3)" "Bytes r3 = rest"
        by blast
      show ?thesis
      proof (cases "length rest < be_nat c4")
        case True
        with r1 r2 r3 assms(2) have
          "readHeaderSlice r = (Inl errInvalidLength, r3) \<and> Bytes r3 = [] @ rest"
          by (auto simp: readHeaderSlice_def Len_Bytes)
        then show ?thesis by blast
      next
        case False
        with r1 r2 r3 assms(2) have
          "readHeaderSlice r = (Inr (be_nat c4, be_nat s4), r3) \<and> Bytes r3 = rest \<and>
             be_nat c4 \<le> length rest"
          by (auto simp: readHeaderSlice_def Len_Bytes)
        then show ?thesis by blast
      qed
    qed
  qed
qed

lemma readCompositeHeader_Bytes:
  assumes "Bytes r = 0x00 # c # p @ hdr" and "intWidth c = Some (length p)"
  shows "(\<exists>e r' pre. readCompositeHeader r = (Inl e, r') \<and> Bytes r' = pre @ hdr) \<or>
     (\<exists>v r1. readCompositeHeader r =
          (case readHeaderSlice r1 of
             (Inl e, r3) \<Rightarrow> (Inl e, r3)
           | (Inr (n, _), r3) \<Rightarrow> (Inr (of_int v, n), r3)) \<and> Bytes r1 = hdr)"
proof -
  from ReadByte_Bytes [OF assms(1)] obtain r0 where
    r0: "ReadByte r = (Inr 0x00, r0)" "Bytes r0 = c # p @ hdr" by blast
  from readInt_Bytes [OF r0(2) assms(2)] show ?thesis
  proof
    assume "\<exists>e r' pre. readInt r0 = (Inl e, r') \<and> Bytes r' = pre @ hdr"
    then obtain e r' pre where "readInt r0 = (Inl e, r')" "Bytes r' = pre @ hdr" by blast
    with r0 have "readCompositeHeader r = (Inl e, r') \<and> Bytes r' = pre @ hdr"
      by (simp add: readCompositeHeader_def)
    then show ?thesis by blast
  next
    assume "\<exists>v r'. readInt r0 = (Inr v, r') \<and> Bytes r' = hdr"
    then obtain v r1 where "readInt r0 = (Inr v, r1)" "Bytes r1 = hdr" by blast
    with r0 have "readCompositeHeader r =
          (case readHeaderSlice r1 of
             (Inl e, r3) \<Rightarrow> (Inl e, r3)
           | (Inr (n, _), r3) \<Rightarrow> (Inr (of_int v, n), r3)) \<and> Bytes r1 = hdr"
      by (simp add: readCompositeHeader_def)
    then show ?thesis by blast
  qed
qed

lemma unmarshalComposite_count8:
  assumes "Bytes r = 0x00 # c # p @ lc # sz # cnt # rest" and "intWidth c = Some (length p)"
    and "lc = typeCodeList8 \<or> lc = typeCodeArray8" and "length flds < unat cnt"
  shows "\<exists>e r' pre. unmarshalComposite r typ flds = (Some e, map uf_field flds, r') \<and>
           Bytes r' = pre @ rest"
proof -
  from readCompositeHeader_Bytes [OF assms(1,2)] show ?thesis
  proof
    assume "\<exists>e r' pre. readCompositeHeader r = (Inl e, r') \<and>
        Bytes r' = pre @ lc # sz # cnt # rest"
    then obtain e r' pre where "readCompositeHeader r = (Inl e, r')"
      "Bytes r' = pre @ lc # sz # cnt # rest" by blast
    then have "unmarshalComposite r typ flds = (Some e, map uf_field flds, r') \<and>
        Bytes r' = (pre @ [lc, sz, cnt]) @ rest"
      by (simp add: unmarshalComposite_def)
    then show ?thesis by blast
  next
    assume "\<exists>v r1. readCompositeHeader r =
          (case readHeaderSlice r1 of
             (Inl e, r3) \<Rightarrow> (Inl e, r3)
           | (Inr (n, _), r3) \<Rightarrow> (Inr (of_int v, n), r3)) \<and>
        Bytes r1 = lc # sz # cnt # rest"
    then obtain v r1 where h: "readCompositeHeader r =
          (case readHeaderSlice r1 of
             (Inl e, r3) \<Rightarrow> (Inl e, r3)
           | (Inr (n, _), r3) \<Rightarrow> (Inr (of_int v, n), r3))"
      and b1: "Bytes r1 = lc # sz # cnt # rest" by blast
    from readHeaderSlice_Bytes8 [OF b1 assms(3)] obtain r3 where
      r3: "Bytes r3 = rest" "readHeaderSlice r1 =
       (if length rest < unat cnt then Inl errInvalidLength else Inr (unat cnt, unat sz), r3)"
      by blast
    from h r3 assms(4) have
      "\<exists>e. unmarshalComposite r typ flds = (Some e, map uf_field flds, r3)"
      by (simp add: unmarshalComposite_def)
    with r3(1) have "\<exists>e. unmarshalComposite r typ flds = (Some e, map uf_field flds, r3) \<and>
        Bytes r3 = [] @ rest" by simp
    then show ?thesis by blast
  qed
qed

lemma unmarshalComposite_count32:
  assumes "Bytes r = 0x00 # c # p @ lc # s4 @ c4 @ rest" and "intWidth c = Some (length p)"
    and "lc = typeCodeList32 \<or> lc = typeCodeArray32"
    and "length s4 = 4" and "length c4 = 4" and "length flds < be_nat c4"
  shows "\<exists>e r' pre. unmarshalComposite r typ flds = (Some e, map uf_field flds, r') \<and>
           Bytes r' = pre @ rest"
proof -
  from readCompositeHeader_Bytes [OF assms(1,2)] show ?thesis
  proof
    assume "\<exists>e r' pre. readCompositeHeader r = (Inl e, r') \<and>
        Bytes r' = pre @ lc # s4 @ c4 @ rest"
    then obtain e r' pre where "readCompositeHeader r = (Inl e, r')"
      "Bytes r' = pre @ lc # s4 @ c4 @ rest" by blast
    then have "unmarshalComposite r typ flds = (Some e, map uf_field flds, r') \<and>
        Bytes r' = (pre @ lc # s4 @ c4) @ rest"
      by (simp add: unmarshalComposite_def)
    then show ?thesis by blast
  next
    assume "\<exists>v r1. readCompositeHeader r =
          (case readHeaderSlice r1 of
             (Inl e, r3) \<Rightarrow> (Inl e, r3)
           | (Inr (n, _), r3) \<Rightarrow> (Inr (of_int v, n), r3)) \<and>
        Bytes r1 = lc # s4 @ c4 @ rest"
    then obtain v r1 where h: "readCompositeHeader r =
          (case readHeaderSlice r1 of
             (Inl e, r3) \<Rightarrow> (Inl e, r3)
           | (Inr (n, _), r3) \<Rightarrow> (Inr (of_int v, n), r3))"
      and b1: "Bytes r1 = lc # s4 @ c4 @ rest" by blast
    from readHeaderSlice_Bytes32 [OF b1 assms(3,4,5)] show ?thesis
    proof
      assume "\<exists>e r' pre. readHeaderSlice r1 = (Inl e, r') \<and> Bytes r' = pre @ rest"
      then obtain e r' pre where "readHeaderSlice r1 = (Inl e, r')" "Bytes r' = pre @ rest"
        by blast
      with h have "unmarshalComposite r typ flds = (Some e, map uf_field flds, r') \<and>
          Bytes r' = pre @ rest"
        by (simp add: unmarshalComposite_def)
      then show ?thesis by blast
    next
      assume "\<exists>r'. readHeaderSlice r1 = (Inr (be_nat c4, be_nat s4), r') \<and> Bytes r' = rest \<and>
           be_nat c4 \<le> length rest"
      then obtain r3 where "readHeaderSlice r1 = (Inr (be_nat c4, be_nat s4), r3)"
        and b3: "Bytes r3 = rest" by blast
      with h assms(6) have
        "\<exists>e. unmarshalComposite r typ flds = (Some e, map uf_field flds, r3)"
        by (simp add: unmarshalComposite_def)
      with b3 have "\<exists>e. unmarshalComposite r typ flds = (Some e, map uf_field flds, r3) \<and>
          Bytes r3 = [] @ rest" by simp
      then show ?thesis by blast
    qed
  qed
qed

subsection \<open>Writing a map\<close>

text \<open>
  Claim C1. The map \<open>{"a": true, "b": false}\<close> written with \<^verbatim>\<open>writeMapHeader\<close> (element
  count 4) and two calls of \<^verbatim>\<open>writeMapElement\<close> is expected to be the eleven bytes
  \<^verbatim>\<open>c1 0b 04 a1 01 61 41 a1 01 62 42\<close>. The code writes ten: \<^verbatim>\<open>writeMapHeader\<close> writes
  the type code and the element count and no size, so the byte \<^verbatim>\<open>0b\<close> is missing.
\<close>

theorem writeMap_ab_has_no_size_byte:
  "writeMapHeader [] 4 = (None, [0xc1, 0x04]) \<and>
   writeMapElement [0xc1, 0x04] (VString [0x61]) (VBool True) =
     (None, [0xc1, 0x04, 0xa1, 0x01, 0x61, 0x41]) \<and>
   writeMapElement [0xc1, 0x04, 0xa1, 0x01, 0x61, 0x41] (VString [0x62]) (VBool False) =
     (None, [0xc1, 0x04, 0xa1, 0x01, 0x61, 0x41, 0xa1, 0x01, 0x62, 0x42])"
  by (simp add: writeMapHeader_def writeMapElement_def writeString_def)

text \<open>
  Read back with \<^verbatim>\<open>newMapReader\<close>, which takes the byte after the type code for the
  size and the next one for the count, those ten bytes are a map of size 4 with a count of
  161 (the Str8 code of the first key).
\<close>

lemma written_map_read_back:
  "newMapReader (BytesBuffer \<lparr>b_buf = [0xc1, 0x04, 0xa1, 0x01, 0x61, 0x41, 0xa1, 0x01, 0x62, 0x42],
                              b_off = 0, b_lastRead = False\<rparr>) =
     Inr \<lparr>mr_r = limitReader
                   (BytesBuffer \<lparr>b_buf = [0xc1, 0x04, 0xa1, 0x01, 0x61, 0x41, 0xa1, 0x01, 0x62, 0x42],
                                 b_off = 3, b_lastRead = True\<rparr>) 4 0,
          mr_count = 161, mr_read = 0\<rparr>"
  by (simp add: newMapReader_def Buffer_ReadByte_def Buffer_empty_def Buffer_Len_def)

subsection \<open>The size byte of the 8-bit list\<close>

text \<open>
  Claim C2. In the 8-bit variant the size byte \<^verbatim>\<open>writeSlice\<close> writes is expected to be
  the payload plus one and to count the bytes after it; a list of 255 one-byte fields is
  the claim's own instance. There the code takes the 8-bit branch (255 < 256 for both
  the count and the payload) and writes \<^verbatim>\<open>uint8(255 + 1)\<close>, which is 0, in front of the
  256 bytes that follow.
\<close>

theorem writeList_255_fields_size_byte_wraps:
  "writeList [] (replicate 255 [typeCodeNull]) =
     (None, [typeCodeList8, 0x00, 0xff] @ replicate 255 typeCodeNull)"
  by (simp add: writeList_def writeSlice_def sum_list_replicate concat_replicate_single)

text \<open>
  Below a payload of 255 the size byte of a list is right: it is the payload plus one and
  counts the bytes after it. For an array the element type code, written after the count,
  is one byte more than the size byte says.
\<close>

lemma writeList_size_byte_below_255:
  assumes "fs \<noteq> []" and "length fs < 256" and "sum_list (map length fs) < 255"
  shows "\<exists>sz rest. writeList w fs = (None, w @ [typeCodeList8, sz] @ rest) \<and>
           unat sz = sum_list (map length fs) + 1 \<and> unat sz = length rest"
proof -
  let ?p = "sum_list (map length fs)"
  have "unat (of_nat (?p + 1) :: u8) = (?p + 1) mod 2 ^ LENGTH(8)"
    by (rule unat_of_nat)
  with assms(3) have "unat (of_nat (?p + 1) :: u8) = ?p + 1"
    by simp
  moreover have "length (of_nat (length fs) # concat fs :: bytes) = ?p + 1"
    by (simp add: length_concat)
  moreover from assms have "writeList w fs =
      (None, w @ [typeCodeList8, of_nat (?p + 1)] @ (of_nat (length fs) # concat fs))"
    by (simp add: writeList_def writeSlice_def Let_def)
  ultimately show ?thesis by metis
qed

lemma writeArray_size_byte_misses_type_code:
  assumes "fs \<noteq> []" and "length fs < 256" and "sum_list (map length fs) < 255"
  shows "\<exists>sz rest. writeArray w ofType fs = (None, w @ [typeCodeArray8, sz] @ rest) \<and>
           unat sz = sum_list (map length fs) + 1 \<and> length rest = unat sz + 1"
proof -
  let ?p = "sum_list (map length fs)"
  have "unat (of_nat (?p + 1) :: u8) = (?p + 1) mod 2 ^ LENGTH(8)"
    by (rule unat_of_nat)
  with assms(3) have "unat (of_nat (?p + 1) :: u8) = ?p + 1"
    by simp
  moreover have "length (of_nat (length fs) # ofType # concat fs :: bytes) = ?p + 1 + 1"
    by (simp add: length_concat)
  moreover from assms have "writeArray w ofType fs =
      (None, w @ [typeCodeArray8, of_nat (?p + 1)] @ (of_nat (length fs) # ofType # concat fs))"
    by (simp add: writeArray_def writeSlice_def Let_def)
  ultimately show ?thesis by metis
qed

subsection \<open>Timestamps\<close>

text \<open>
  Claim C4. \<^verbatim>\<open>readTimestamp\<close> is expected to return, for every signed millisecond count,
  the instant at that offset from the epoch. For the count -1 (eight bytes \<^verbatim>\<open>ff\<close>) the
  code returns the instant 615 milliseconds after the epoch: the remainder is taken of
  the unsigned value, and 2^64 - 1 leaves 615 modulo 1000, while the signed quotient is 0.
\<close>

theorem readTimestamp_minus_one_millisecond:
  "readTimestamp (BytesBuffer \<lparr>b_buf = [0x83, 0xff, 0xff, 0xff, 0xff, 0xff, 0xff, 0xff, 0xff],
                               b_off = 0, b_lastRead = False\<rparr>) =
     (Inr (unixTime 0 615000000),
      BytesBuffer \<lparr>b_buf = [0x83, 0xff, 0xff, 0xff, 0xff, 0xff, 0xff, 0xff, 0xff],
                   b_off = 9, b_lastRead = True\<rparr>)"
  by (simp add: readTimestamp_def Buffer_ReadByte_def Buffer_empty_def binary_Read_def
      ReadFull_def Buffer_Read_def be_nat_def time_Unix_def quot_def Let_def)

text \<open>
  In general: the instant \<^verbatim>\<open>readTimestamp\<close> returns for the eight bytes \<open>bs\<close> is the
  signed count they denote when that count is not negative, and differs from it for every
  negative count.
\<close>

lemma uint_of_sint_u64:
  "uint (w :: u64) = (if sint w < 0 then sint w + 18446744073709551616 else sint w)"
proof -
  have u: "uint w = sint w mod 18446744073709551616"
    using uint_sint [of w] by (simp add: take_bit_eq_mod)
  have lo: "- 9223372036854775808 \<le> sint w" using sint_ge [of w] by simp
  have hi: "sint w < 9223372036854775808" using sint_lt [of w] by simp
  show ?thesis
  proof (cases "sint w < 0")
    case True
    have "sint w mod 18446744073709551616 = (sint w + 18446744073709551616) mod 18446744073709551616"
      by simp
    also from True lo have "\<dots> = sint w + 18446744073709551616"
      by (intro mod_pos_pos_trivial) simp_all
    finally show ?thesis using True u by simp
  next
    case False
    with hi have "sint w mod 18446744073709551616 = sint w"
      by (intro mod_pos_pos_trivial) simp_all
    with False u show ?thesis by simp
  qed
qed

lemma sint_rem_u64: "sint ((n :: u64) mod 1000) = uint n mod 1000"
proof -
  have a: "uint (n mod 1000) = uint n mod 1000"
    by (simp add: uint_mod_distrib)
  have b: "uint n mod 1000 < 1000" by simp
  have c: "- 9223372036854775808 \<le> sint (n mod 1000)" using sint_ge [of "n mod 1000"] by simp
  from a b c uint_of_sint_u64 [of "n mod 1000"] show ?thesis
    by (simp split: if_splits)
qed

lemma unixMilli_time_Unix:
  "0 \<le> r \<Longrightarrow> r < 1000 \<Longrightarrow> unixMilli (time_Unix s (r * 1000000)) = s * 1000 + r"
  by (simp add: time_Unix_def unixMilli_def)

lemma timestamp_value:
  "unixMilli (time_Unix (quot (sint (n :: u64)) 1000) (sint (n mod 1000) * 1000000)) =
     quot (sint n) 1000 * 1000 + uint n mod 1000"
  by (simp add: sint_rem_u64 unixMilli_time_Unix)

lemma timestamp_nonneg:
  assumes "0 \<le> sint (n :: u64)"
  shows "unixMilli (time_Unix (quot (sint n) 1000) (sint (n mod 1000) * 1000000)) = sint n"
proof -
  from assms have u: "uint n = sint n"
    using uint_of_sint_u64 [of n] by simp
  from assms have q: "quot (sint n) 1000 = sint n div 1000"
    by (simp add: quot_def sgn_if)
  have "unixMilli (time_Unix (quot (sint n) 1000) (sint (n mod 1000) * 1000000)) =
      quot (sint n) 1000 * 1000 + uint n mod 1000"
    by (rule timestamp_value)
  also have "\<dots> = sint n div 1000 * 1000 + sint n mod 1000"
    by (simp only: u q)
  also have "\<dots> = sint n" by simp
  finally show ?thesis .
qed

lemma timestamp_negative:
  assumes "sint (n :: u64) < 0"
  shows "unixMilli (time_Unix (quot (sint n) 1000) (sint (n mod 1000) * 1000000)) \<noteq> sint n"
proof
  define a where "a = - sint n"
  assume eq: "unixMilli (time_Unix (quot (sint n) 1000) (sint (n mod 1000) * 1000000)) = sint n"
  from assms have u: "uint n = 18446744073709551616 - a"
    using uint_of_sint_u64 [of n] by (simp add: a_def)
  from assms have q: "quot (sint n) 1000 = - (a div 1000)"
    by (simp add: quot_def sgn_if a_def)
  have "unixMilli (time_Unix (quot (sint n) 1000) (sint (n mod 1000) * 1000000)) =
      quot (sint n) 1000 * 1000 + uint n mod 1000"
    by (rule timestamp_value)
  also have "\<dots> = - (a div 1000) * 1000 + (18446744073709551616 - a) mod 1000"
    by (simp only: u q)
  finally have "- (a div 1000) * 1000 + (18446744073709551616 - a) mod 1000 = - a"
    using eq by (simp add: a_def)
  moreover have "a = a div 1000 * 1000 + a mod 1000" by simp
  ultimately have s: "a mod 1000 + (18446744073709551616 - a) mod 1000 = 0" by linarith
  have "0 \<le> a mod 1000" "0 \<le> (18446744073709551616 - a) mod 1000" by simp_all
  with s have z: "a mod 1000 = 0" "(18446744073709551616 - a) mod 1000 = 0" by linarith+
  have "(18446744073709551616 :: int) mod 1000 = ((18446744073709551616 - a) + a) mod 1000"
    by simp
  also have "\<dots> = ((18446744073709551616 - a) mod 1000 + a mod 1000) mod 1000"
    by (rule mod_add_eq [symmetric])
  also from z have "\<dots> = 0" by simp
  finally show False by simp
qed

lemma readTimestamp_Buffer:
  assumes "Buffer_Bytes b = typeCodeTimestamp # bs @ rest" and "length bs = 8"
  shows "\<exists>b'. readTimestamp (BytesBuffer b) =
           (Inr (time_Unix (quot (sint (of_nat (be_nat bs) :: u64)) 1000)
                           (sint ((of_nat (be_nat bs) :: u64) mod 1000) * 1000000)),
            BytesBuffer b') \<and> Buffer_Bytes b' = rest"
proof -
  from Buffer_ReadByte_Bytes [OF assms(1)] obtain b1 where
    b1: "ReadByte (BytesBuffer b) = (Inr typeCodeTimestamp, BytesBuffer b1)"
        "Buffer_Bytes b1 = bs @ rest" by auto
  from Buffer_ReadFull_Bytes [OF b1(2)] assms(2) obtain b2 where
    b2: "ReadFull (BytesBuffer b1) 8 = (Inr bs, BytesBuffer b2)" "Buffer_Bytes b2 = rest"
    by auto
  from b1 b2 show ?thesis
    by (simp add: readTimestamp_def binary_Read_def Let_def)
qed

lemma readTimestamp_nonnegative_count:
  assumes "Buffer_Bytes b = typeCodeTimestamp # bs @ rest" and "length bs = 8"
    and "0 \<le> sint (of_nat (be_nat bs) :: u64)"
  shows "\<exists>t b'. readTimestamp (BytesBuffer b) = (Inr t, BytesBuffer b') \<and>
           Buffer_Bytes b' = rest \<and> unixMilli t = sint (of_nat (be_nat bs) :: u64)"
  using readTimestamp_Buffer [OF assms(1,2)] timestamp_nonneg [OF assms(3)] by auto

lemma readTimestamp_negative_count:
  assumes "Buffer_Bytes b = typeCodeTimestamp # bs @ rest" and "length bs = 8"
    and "sint (of_nat (be_nat bs) :: u64) < 0"
  shows "\<exists>t b'. readTimestamp (BytesBuffer b) = (Inr t, BytesBuffer b') \<and>
           Buffer_Bytes b' = rest \<and> unixMilli t \<noteq> sint (of_nat (be_nat bs) :: u64)"
  using readTimestamp_Buffer [OF assms(1,2)] timestamp_negative [OF assms(3)] by auto

subsection \<open>Null into an unsigned sink\<close>

text \<open>
  Claim C5. For a sink that points to a \<^verbatim>\<open>uint8\<close>, \<^verbatim>\<open>uint16\<close>, \<^verbatim>\<open>uint32\<close> or
  \<^verbatim>\<open>uint64\<close>, whatever it holds, \<^verbatim>\<open>unmarshal\<close> on a reader whose next byte is the Null
  code \<^verbatim>\<open>0x40\<close> returns null = true and a nil error, leaves the sink as it was and
  consumes that one byte.
\<close>

theorem unmarshal_unsigned_null:
  "Bytes r = typeCodeNull # rest \<Longrightarrow>
     \<exists>r'. Bytes r' = rest \<and>
       unmarshal r (Prim (PUint8 v8)) = ((True, None), Prim (PUint8 v8), r') \<and>
       unmarshal r (Prim (PUint16 v16)) = ((True, None), Prim (PUint16 v16), r') \<and>
       unmarshal r (Prim (PUint32 v32)) = ((True, None), Prim (PUint32 v32), r') \<and>
       unmarshal r (Prim (PUint64 v64)) = ((True, None), Prim (PUint64 v64), r')"
proof -
  assume "Bytes r = typeCodeNull # rest"
  then obtain r' where r': "ReadByte r = (Inr typeCodeNull, r')" "Bytes r' = rest"
    using ReadByte_Bytes by blast
  then have "readUint r = (Inl errNull, r')"
    by (simp add: readUint_def)
  with r' show ?thesis
    by (simp add: assign_def deferNull_def)
qed

theorem unmarshal_unsigned_null_witness:
  "\<exists>r'. Bytes r' = [0x07] \<and>
     unmarshal (BytesBuffer \<lparr>b_buf = [0x40, 0x07], b_off = 0, b_lastRead = False\<rparr>)
       (Prim (PUint8 9)) = ((True, None), Prim (PUint8 9), r') \<and>
     unmarshal (BytesBuffer \<lparr>b_buf = [0x40, 0x07], b_off = 0, b_lastRead = False\<rparr>)
       (Prim (PUint16 9)) = ((True, None), Prim (PUint16 9), r') \<and>
     unmarshal (BytesBuffer \<lparr>b_buf = [0x40, 0x07], b_off = 0, b_lastRead = False\<rparr>)
       (Prim (PUint32 9)) = ((True, None), Prim (PUint32 9), r') \<and>
     unmarshal (BytesBuffer \<lparr>b_buf = [0x40, 0x07], b_off = 0, b_lastRead = False\<rparr>)
       (Prim (PUint64 9)) = ((True, None), Prim (PUint64 9), r')"
  using unmarshal_unsigned_null
    [of "BytesBuffer \<lparr>b_buf = [0x40, 0x07], b_off = 0, b_lastRead = False\<rparr>" "[0x07]" 9 9 9 9]
  by (simp add: Buffer_Bytes_def)

subsection \<open>The length classes of a string\<close>

text \<open>
  Claim C7, as stated: every string shorter than 256 bytes is written with the Str8 code,
  and \<^verbatim>\<open>writeString\<close> fails exactly when the length is at least 2^32. The one-byte
  string \<^verbatim>\<open>ff\<close> is shorter than 256 bytes and is refused, because it is not valid UTF-8;
  and the string of 2^32 - 1 letters \<^verbatim>\<open>a\<close>, which is valid UTF-8 and shorter than 2^32
  bytes, is refused as too long, the guard being \<^verbatim>\<open>l < math.MaxUint32\<close>.
\<close>

theorem writeString_refused_counterexample:
  "length [0xff :: u8] < 256 \<and>
   writeString [] [0xff] = (Some (errorNew ''not a valid UTF-8 string''), []) \<and>
   length (replicate (2 ^ 32 - 1) (0x61 :: u8)) < 2 ^ 32 \<and>
   ValidString (replicate (2 ^ 32 - 1) 0x61) \<and>
   writeString [] (replicate (2 ^ 32 - 1) 0x61) = (Some (errorNew ''too long''), [])"
proof -
  have v: "ValidString (replicate n 0x61)" for n
    by (rule ValidString_ascii) (simp add: list_all_length)
  show ?thesis
    by (simp add: writeString_def utf8_size_def v)
qed

text \<open>
  Claim C7, amended. A valid UTF-8 string shorter than 256 bytes is written as the Str8
  code, its length in one byte and its bytes; a valid one of length from 256 up to below
  2^32 - 1 as the Str32 code, its length in four big-endian bytes and its bytes. A string
  that is not valid UTF-8, or of length at least 2^32, is an error and nothing is written.
\<close>

theorem writeString_variants:
  "(ValidString str \<and> length str < 256 \<longrightarrow>
      writeString wr str = (None, wr @ [typeCodeStr8, of_nat (length str)] @ str)) \<and>
   (ValidString str \<and> 256 \<le> length str \<and> length str < 2 ^ 32 - 1 \<longrightarrow>
      writeString wr str = (None, wr @ [typeCodeStr32] @ be32 (of_nat (length str)) @ str)) \<and>
   (\<not> ValidString str \<longrightarrow> (\<exists>e. writeString wr str = (Some e, wr))) \<and>
   (2 ^ 32 \<le> length str \<longrightarrow> (\<exists>e. writeString wr str = (Some e, wr)))"
  by (simp add: writeString_def Let_def)

theorem writeString_variants_witness:
  "writeString [] [0x61] = (None, [typeCodeStr8, 1, 0x61]) \<and>
   writeString [] (replicate 256 0x61) =
     (None, [typeCodeStr32, 0, 0, 1, 0] @ replicate 256 0x61) \<and>
   (\<exists>e. writeString [] [0xff] = (Some e, [])) \<and>
   (\<exists>e. writeString [] (replicate (2 ^ 32) 0x61) = (Some e, []))"
proof -
  have v: "ValidString (replicate n 0x61)" for n
    by (rule ValidString_ascii) (simp add: list_all_length)
  have nv: "\<not> ValidString [0xff]"
    by (simp add: utf8_size_def)
  show ?thesis
    using writeString_variants [of "[0x61]" "[]"]
      writeString_variants [of "replicate 256 0x61" "[]"]
      writeString_variants [of "[0xff]" "[]"]
      writeString_variants [of "replicate (2 ^ 32) 0x61" "[]"] v nv
    by (simp add: be32_def)
qed

subsection \<open>Null into a dynamic sink\<close>

text \<open>
  Claim C10. For a sink that points to an \<^verbatim>\<open>interface{}\<close>, \<^verbatim>\<open>unmarshal\<close> on a reader
  whose next byte is the Null code \<^verbatim>\<open>0x40\<close> consumes that byte, stores nil in the sink and
  returns a nil error with null = false.
\<close>

theorem unmarshal_any_null:
  "Bytes r = typeCodeNull # rest \<Longrightarrow>
     \<exists>r'. Bytes r' = rest \<and>
       unmarshal r (Prim (PAny v)) = ((False, None), Prim (PAny ANil), r')"
proof -
  assume "Bytes r = typeCodeNull # rest"
  then obtain r' where r': "ReadByte r = (Inr typeCodeNull, r')" "Bytes r' = rest"
    using ReadByte_Bytes by blast
  then have "readAny r = (Inr ANil, r')"
    by (simp add: readAny_def)
  with r' show ?thesis
    by (simp add: assign_def deferNull_def)
qed

theorem unmarshal_any_null_witness:
  "\<exists>r'. Bytes r' = [0x07] \<and>
     unmarshal (BytesBuffer \<lparr>b_buf = [0x40, 0x07], b_off = 0, b_lastRead = False\<rparr>)
       (Prim (PAny (ABool True))) = ((False, None), Prim (PAny ANil), r')"
  using unmarshal_any_null
    [of "BytesBuffer \<lparr>b_buf = [0x40, 0x07], b_off = 0, b_lastRead = False\<rparr>" "[0x07]"
        "ABool True"]
  by (simp add: Buffer_Bytes_def)

subsection \<open>The bounded reader of a map\<close>

text \<open>
  Claim C3. A map whose header declares a size of 5 bytes and whose entries take 7 is
  expected to fail with the limit-reached error. The map below declares size 5 and count
  2; its key \<^verbatim>\<open>a1 01 61\<close> and its value \<^verbatim>\<open>a1 02 62 63\<close> take 7 bytes. The code decodes it
  without an error and consumes all 7 bytes: \<^verbatim>\<open>limitReader\<close> overrides \<^verbatim>\<open>Read\<close> only, so
  the type codes and 8-bit lengths, read with \<^verbatim>\<open>ReadByte\<close>, are not counted, and
  \<^verbatim>\<open>Read\<close> refuses only once the limit has already been reached.
\<close>

theorem map_size_5_entries_7_decodes:
  "unmarshal (BytesBuffer \<lparr>b_buf = [0xc1, 0x05, 0x02, 0xa1, 0x01, 0x61, 0xa1, 0x02, 0x62, 0x63],
                           b_off = 0, b_lastRead = False\<rparr>)
     (SMapStringAny []) =
   ((False, None), SMapStringAny [([0x61], AString [0x62, 0x63])],
    BytesBuffer \<lparr>b_buf = [0xc1, 0x05, 0x02, 0xa1, 0x01, 0x61, 0xa1, 0x02, 0x62, 0x63],
                 b_off = 10, b_lastRead = True\<rparr>)"
  by (simp add: mapStringAny_unmarshal_def newMapReader_def Buffer_ReadByte_def Buffer_empty_def
      Buffer_Len_def mapReader_more_def mapReader_next_def assign_def readString_def
      readVariableType_def readAny_def ReadFull_def Buffer_Read_def Buffer_UnreadByte_def
      box_def deferNull_def Let_def word_le_nat_alt)

subsection \<open>More fields than the schema has\<close>

text \<open>
  Claim C8. A composite on the wire is the byte \<^verbatim>\<open>00\<close>, a descriptor (a type code \<open>c\<close>
  that \<^verbatim>\<open>readInt\<close> accepts and the bytes \<open>p\<close> it asks for) and a list header: the code of
  List8 or Array8, a size byte and a count byte, or the code of List32 or Array32, four
  size bytes and four count bytes. For every reader that holds such bytes, whenever the
  count in the list header exceeds the number of fields of the caller's schema,
  \<^verbatim>\<open>unmarshalComposite\<close> returns an error, every sink of the schema is as it was (no field
  is unmarshalled and no null handler has run) and none of the bytes \<open>rest\<close> after the
  header has been consumed. In terms of \<^verbatim>\<open>readCompositeHeader\<close>: when it returns a count
  above the schema's length, or fails, \<^verbatim>\<open>unmarshalComposite\<close> returns an error with the
  reader as the header left it and the sinks unchanged.
\<close>

theorem unmarshalComposite_field_count:
  "(Bytes r = 0x00 # c # p @ lc # sz # cnt # rest \<and> intWidth c = Some (length p) \<and>
    (lc = typeCodeList8 \<or> lc = typeCodeArray8) \<and> length flds < unat cnt \<longrightarrow>
      (\<exists>e r' pre. unmarshalComposite r typ flds = (Some e, map uf_field flds, r') \<and>
         Bytes r' = pre @ rest)) \<and>
   (Bytes r = 0x00 # c # p @ lc # s4 @ c4 @ rest \<and> intWidth c = Some (length p) \<and>
    (lc = typeCodeList32 \<or> lc = typeCodeArray32) \<and> length s4 = 4 \<and> length c4 = 4 \<and>
    length flds < be_nat c4 \<longrightarrow>
      (\<exists>e r' pre. unmarshalComposite r typ flds = (Some e, map uf_field flds, r') \<and>
         Bytes r' = pre @ rest)) \<and>
   (readCompositeHeader r = (Inr (t, numFields), r1) \<and> length flds < numFields \<longrightarrow>
      (\<exists>e. unmarshalComposite r typ flds = (Some e, map uf_field flds, r1))) \<and>
   (readCompositeHeader r = (Inl e1, r1) \<longrightarrow>
      unmarshalComposite r typ flds = (Some e1, map uf_field flds, r1))"
  using unmarshalComposite_count8 [of r c p lc sz cnt rest flds "typ"]
    unmarshalComposite_count32 [of r c p lc s4 c4 rest flds "typ"]
  by (simp add: unmarshalComposite_def)

theorem unmarshalComposite_field_count_witness:
  "(\<exists>e r' pre. unmarshalComposite
        (BytesBuffer \<lparr>b_buf = [0x00, 0x53, 0x10, 0xc0, 0x01, 0x02, 0x41, 0x41],
                      b_off = 0, b_lastRead = False\<rparr>)
        0x10 [\<lparr>uf_field = Prim (PBool False), uf_handleNull = Some (required ''flag'')\<rparr>] =
      (Some e, [Prim (PBool False)], r') \<and> Bytes r' = pre @ [0x41, 0x41]) \<and>
   (\<exists>e r' pre. unmarshalComposite
        (BytesBuffer \<lparr>b_buf = [0x00, 0x53, 0x10, 0xd0, 0, 0, 0, 0x06, 0, 0, 0, 0x02, 0x41, 0x41],
                      b_off = 0, b_lastRead = False\<rparr>)
        0x10 [\<lparr>uf_field = Prim (PBool False), uf_handleNull = Some (required ''flag'')\<rparr>] =
      (Some e, [Prim (PBool False)], r') \<and> Bytes r' = pre @ [0x41, 0x41]) \<and>
   unmarshalComposite
     (BytesBuffer \<lparr>b_buf = [0x00, 0x53, 0x10, 0xc0, 0x01, 0x02, 0x41, 0x41],
                   b_off = 0, b_lastRead = False\<rparr>)
     0x10 [\<lparr>uf_field = Prim (PBool False), uf_handleNull = Some (required ''flag'')\<rparr>] =
   (Some (errorErrorf ''invalid field count %d for %#0x''), [Prim (PBool False)],
    BytesBuffer \<lparr>b_buf = [0x00, 0x53, 0x10, 0xc0, 0x01, 0x02, 0x41, 0x41],
                 b_off = 6, b_lastRead = True\<rparr>) \<and>
   unmarshalComposite
     (BytesBuffer \<lparr>b_buf = [0x00, 0x53, 0x10, 0xc0, 0x03, 0x02, 0x41],
                   b_off = 0, b_lastRead = False\<rparr>)
     0x10 [\<lparr>uf_field = Prim (PBool False), uf_handleNull = Some (required ''flag'')\<rparr>] =
   (Some errInvalidLength, [Prim (PBool False)],
    BytesBuffer \<lparr>b_buf = [0x00, 0x53, 0x10, 0xc0, 0x03, 0x02, 0x41],
                 b_off = 6, b_lastRead = True\<rparr>)"
proof -
  let ?B8 = "BytesBuffer \<lparr>b_buf = [0x00, 0x53, 0x10, 0xc0, 0x01, 0x02, 0x41, 0x41],
                      b_off = 0, b_lastRead = False\<rparr>"
  let ?B8' = "BytesBuffer \<lparr>b_buf = [0x00, 0x53, 0x10, 0xc0, 0x01, 0x02, 0x41, 0x41],
                      b_off = 6, b_lastRead = True\<rparr>"
  let ?B32 = "BytesBuffer \<lparr>b_buf = [0x00, 0x53, 0x10, 0xd0, 0, 0, 0, 0x06, 0, 0, 0, 0x02, 0x41, 0x41],
                      b_off = 0, b_lastRead = False\<rparr>"
  let ?B7 = "BytesBuffer \<lparr>b_buf = [0x00, 0x53, 0x10, 0xc0, 0x03, 0x02, 0x41],
                      b_off = 0, b_lastRead = False\<rparr>"
  let ?B7' = "BytesBuffer \<lparr>b_buf = [0x00, 0x53, 0x10, 0xc0, 0x03, 0x02, 0x41],
                      b_off = 6, b_lastRead = True\<rparr>"
  let ?F = "[\<lparr>uf_field = Prim (PBool False), uf_handleNull = Some (required ''flag'')\<rparr>]"
  have w8: "\<exists>e r' pre. unmarshalComposite ?B8 0x10 ?F = (Some e, map uf_field ?F, r') \<and>
      Bytes r' = pre @ [0x41, 0x41]"
    using unmarshalComposite_field_count
      [of ?B8 "0x53" "[0x10]" "0xc0" "0x01" "0x02" "[0x41, 0x41]" ?F "0x10"]
    by (simp add: Buffer_Bytes_def intWidth_def)
  have w32: "\<exists>e r' pre. unmarshalComposite ?B32 0x10 ?F = (Some e, map uf_field ?F, r') \<and>
      Bytes r' = pre @ [0x41, 0x41]"
    using unmarshalComposite_field_count
      [of ?B32 "0x53" "[0x10]" "0xd0" _ _ "[0x41, 0x41]" ?F "0x10"
          "[0, 0, 0, 0x06]" "[0, 0, 0, 0x02]"]
    by (simp add: Buffer_Bytes_def intWidth_def be_nat_def)
  have h8: "readCompositeHeader ?B8 = (Inr (0x10, 2), ?B8')"
    by (simp add: readCompositeHeader_def readInt_def readHeaderSlice_def Buffer_ReadByte_def
        Buffer_empty_def Buffer_Len_def)
  have ev8: "unmarshalComposite ?B8 0x10 ?F =
      (Some (errorErrorf ''invalid field count %d for %#0x''), [Prim (PBool False)], ?B8')"
    by (simp add: unmarshalComposite_def h8)
  have h7: "readCompositeHeader ?B7 = (Inl errInvalidLength, ?B7')"
    by (simp add: readCompositeHeader_def readInt_def readHeaderSlice_def Buffer_ReadByte_def
        Buffer_empty_def Buffer_Len_def)
  have ev7: "unmarshalComposite ?B7 0x10 ?F =
      (Some errInvalidLength, map uf_field ?F, ?B7')"
    using h7 unmarshalComposite_field_count
      [of ?B7 _ _ _ _ _ _ ?F "0x10" _ _ _ _ ?B7' errInvalidLength]
    by blast
  from w8 w32 ev8 ev7 show ?thesis by simp
qed

subsection \<open>The element count of a map header\<close>

text \<open>
  Claim C9. \<^verbatim>\<open>newMapReader\<close> reads the element count as one byte after either size
  field: every map reader it returns has a count of at most 255; on a Map32 header it
  reads the four size bytes and then one count byte, and on a Map8 header one size byte
  and one count byte, leaving the reader right after the count byte.
\<close>

theorem newMapReader_count_is_one_byte:
  "(newMapReader r = Inr mr \<longrightarrow> mr_count mr \<le> 255) \<and>
   (Buffer_Bytes b = typeCodeMap32 # s3 # s2 # s1 # s0 # c # rest \<and>
    be_nat [s3, s2, s1, s0] \<le> Suc (length rest) \<longrightarrow>
      (\<exists>b'. newMapReader (BytesBuffer b) =
             Inr \<lparr>mr_r = limitReader (BytesBuffer b') (of_nat (be_nat [s3, s2, s1, s0])) 0,
                  mr_count = unat c, mr_read = 0\<rparr> \<and>
           Buffer_Bytes b' = rest)) \<and>
   (Buffer_Bytes b = typeCodeMap8 # sz # c # rest \<and> unat sz \<le> Suc (length rest) \<longrightarrow>
      (\<exists>b'. newMapReader (BytesBuffer b) =
             Inr \<lparr>mr_r = limitReader (BytesBuffer b') (ucast sz) 0,
                  mr_count = unat c, mr_read = 0\<rparr> \<and>
           Buffer_Bytes b' = rest))"
  using newMapReader_count [of r mr] newMapReader_Map32 [of b s3 s2 s1 s0 c rest]
    newMapReader_Map8 [of b sz c rest]
  by blast

theorem newMapReader_count_is_one_byte_witness:
  "newMapReader (BytesBuffer \<lparr>b_buf = [0xd1, 0, 0, 0, 3, 0x02, 0x41, 0x42, 0x99], b_off = 0, b_lastRead = False\<rparr>) =
     Inr \<lparr>mr_r = limitReader (BytesBuffer \<lparr>b_buf = [0xd1, 0, 0, 0, 3, 0x02, 0x41, 0x42, 0x99], b_off = 6, b_lastRead = True\<rparr>) 3 0,
          mr_count = 2, mr_read = 0\<rparr> \<and>
   mr_count \<lparr>mr_r = limitReader (BytesBuffer \<lparr>b_buf = [0xd1, 0, 0, 0, 3, 0x02, 0x41, 0x42, 0x99], b_off = 6, b_lastRead = True\<rparr>) 3 0,
          mr_count = 2, mr_read = 0\<rparr> \<le> 255 \<and>
   (\<exists>b'. newMapReader (BytesBuffer \<lparr>b_buf = [0xd1, 0, 0, 0, 3, 0x02, 0x41, 0x42, 0x99], b_off = 0, b_lastRead = False\<rparr>) =
          Inr \<lparr>mr_r = limitReader (BytesBuffer b') 3 0, mr_count = 2, mr_read = 0\<rparr> \<and>
        Buffer_Bytes b' = [0x41, 0x42, 0x99]) \<and>
   (\<exists>b'. newMapReader (BytesBuffer \<lparr>b_buf = [0xc1, 3, 0x02, 0x41, 0x42, 0x99], b_off = 0, b_lastRead = False\<rparr>) =
          Inr \<lparr>mr_r = limitReader (BytesBuffer b') 3 0, mr_count = 2, mr_read = 0\<rparr> \<and>
        Buffer_Bytes b' = [0x41, 0x42, 0x99])"
proof -
  have ev: "newMapReader (BytesBuffer \<lparr>b_buf = [0xd1, 0, 0, 0, 3, 0x02, 0x41, 0x42, 0x99], b_off = 0, b_lastRead = False\<rparr>) =
     Inr \<lparr>mr_r = limitReader (BytesBuffer \<lparr>b_buf = [0xd1, 0, 0, 0, 3, 0x02, 0x41, 0x42, 0x99], b_off = 6, b_lastRead = True\<rparr>) 3 0,
          mr_count = 2, mr_read = 0\<rparr>"
    by (simp add: newMapReader_def Buffer_ReadByte_def Buffer_empty_def Buffer_Len_def
        binary_Read_def ReadFull_def Buffer_Read_def be_nat_def)
  show ?thesis
    using ev
      newMapReader_count_is_one_byte
        [where r = "BytesBuffer \<lparr>b_buf = [0xd1, 0, 0, 0, 3, 0x02, 0x41, 0x42, 0x99], b_off = 0, b_lastRead = False\<rparr>"
           and mr = "\<lparr>mr_r = limitReader (BytesBuffer \<lparr>b_buf = [0xd1, 0, 0, 0, 3, 0x02, 0x41, 0x42, 0x99], b_off = 6, b_lastRead = True\<rparr>) 3 0,
                        mr_count = 2, mr_read = 0\<rparr>"
           and b = "\<lparr>b_buf = [0xd1, 0, 0, 0, 3, 0x02, 0x41, 0x42, 0x99], b_off = 0, b_lastRead = False\<rparr>"
           and ?s3.0 = 0 and ?s2.0 = 0 and ?s1.0 = 0 and ?s0.0 = 3 and c = 2 and rest = "[0x41, 0x42, 0x99]"]
      newMapReader_count_is_one_byte
        [where b = "\<lparr>b_buf = [0xc1, 3, 0x02, 0x41, 0x42, 0x99], b_off = 0, b_lastRead = False\<rparr>"
           and sz = 3 and c = 2 and rest = "[0x41, 0x42, 0x99]"]
    by (simp add: Buffer_Bytes_def be_nat_def)
qed

subsection \<open>Trailing omitted fields of a composite\<close>

text \<open>
  Claim C6. When \<^verbatim>\<open>marshalComposite\<close> succeeds, the list it writes after the header
  \<^verbatim>\<open>00 53 code\<close> has one element for every index up to the highest index that is not
  omitted and none beyond it: an omitted field below that index is the single Null
  byte, any other field is its encoding. For a schema of five fields of which fields 0
  and 2 are set and fields 1, 3 and 4 omitted, the list is field 0's encoding, a Null
  byte and field 2's encoding. The count \<^verbatim>\<open>writeList\<close> puts on the wire is the number
  of elements it is given.
\<close>

theorem marshalComposite_trims_trailing:
  "(marshalComposite wr code flds = (None, out) \<longrightarrow>
      (\<exists>elems. length elems \<le> length flds \<and>
         (\<forall>i<length flds. length elems \<le> i \<longrightarrow> mf_omit (flds ! i)) \<and>
         (0 < length elems \<longrightarrow> \<not> mf_omit (flds ! (length elems - 1))) \<and>
         (\<forall>i<length elems. elems ! i =
            (if mf_omit (flds ! i) then [typeCodeNull]
             else snd (marshal [] (mf_value (flds ! i))))) \<and>
         writeList (wr @ [0x0, typeCodeSmallUlong, code]) elems = (None, out))) \<and>
   (marshal [] v0 = (None, e0) \<and> marshal [] v2 = (None, e2) \<longrightarrow>
      marshalComposite wr code
        [\<lparr>mf_value = v0, mf_omit = False\<rparr>, \<lparr>mf_value = v1, mf_omit = True\<rparr>,
         \<lparr>mf_value = v2, mf_omit = False\<rparr>, \<lparr>mf_value = v3, mf_omit = True\<rparr>,
         \<lparr>mf_value = v4, mf_omit = True\<rparr>] =
      writeList (wr @ [0x0, typeCodeSmallUlong, code]) [e0, [typeCodeNull], e2]) \<and>
   (writeList w es = (None, out') \<longrightarrow>
      (es = [] \<and> out' = w @ [typeCodeList0]) \<or>
      (es \<noteq> [] \<and> length es < 256 \<and>
       out' = w @ [typeCodeList8, of_nat (sum_list (map length es) + 1), of_nat (length es)]
                @ concat es) \<or>
      (es \<noteq> [] \<and> length es < 2 ^ 32 - 1 \<and>
       out' = w @ [typeCodeList32] @ be32 (of_nat (sum_list (map length es) + 4))
                @ be32 (of_nat (length es)) @ concat es))"
  using marshalComposite_elems [of wr code flds out]
    marshalComposite_five [of v0 e0 v2 e2 wr code v1 v3 v4]
    writeList_wire [of w es out']
  by blast

theorem marshalComposite_trims_trailing_witness:
  "marshalComposite [] 0x10
     [\<lparr>mf_value = VBool True, mf_omit = False\<rparr>, \<lparr>mf_value = VUint8 1, mf_omit = True\<rparr>,
      \<lparr>mf_value = VUint8 7, mf_omit = False\<rparr>, \<lparr>mf_value = VString [0x78], mf_omit = True\<rparr>,
      \<lparr>mf_value = VBool False, mf_omit = True\<rparr>] =
     (None, [0x00, 0x53, 0x10, 0xc0, 0x05, 0x03, 0x41, 0x40, 0x50, 0x07]) \<and>
   (\<exists>elems. length elems \<le> 5 \<and>
      writeList [0x00, 0x53, 0x10] elems =
        (None, [0x00, 0x53, 0x10, 0xc0, 0x05, 0x03, 0x41, 0x40, 0x50, 0x07]))"
proof -
  let ?F = "[\<lparr>mf_value = VBool True, mf_omit = False\<rparr>, \<lparr>mf_value = VUint8 1, mf_omit = True\<rparr>,
      \<lparr>mf_value = VUint8 7, mf_omit = False\<rparr>, \<lparr>mf_value = VString [0x78], mf_omit = True\<rparr>,
      \<lparr>mf_value = VBool False, mf_omit = True\<rparr>]"
  let ?out = "[0x00, 0x53, 0x10, 0xc0, 0x05, 0x03, 0x41, 0x40, 0x50, 0x07] :: bytes"
  note T = marshalComposite_trims_trailing
    [of "[]" "0x10" ?F ?out "VBool True" "[0x41]" "VUint8 7" "[0x50, 0x07]"
        "VUint8 1" "VString [0x78]" "VBool False"]
  have m: "marshal [] (VBool True) = (None, [0x41]) \<and> marshal [] (VUint8 7) = (None, [0x50, 0x07])"
    by simp
  from T m have ev: "marshalComposite [] 0x10 ?F = (None, ?out)"
    by (simp add: writeList_def writeSlice_def)
  from T ev obtain elems where e: "length elems \<le> length ?F"
      "writeList ([] @ [0x0, typeCodeSmallUlong, 0x10]) elems = (None, ?out)"
    by blast
  from e(1) have "length elems \<le> 5" by simp
  with e(2) ev show ?thesis
    by (intro conjI exI [of _ elems]) simp_all
qed

end
